theory Spec2Isabelle
  imports Main "HOL-Library.Word"
begin

section \<open>Go library functions used by the daemon\<close>

text \<open>
  A Go string is a sequence of bytes; it is modelled by \<open>string\<close>.  Workload names,
  namespaces, cluster names and container ids are ASCII, and the character classes of the
  daemon's regular expressions are ASCII ranges.  \<open>strings.ToLower\<close> is modelled on ASCII
  letters; Unicode case mapping of other runes is outside the model.
\<close>

definition in_range :: "char \<Rightarrow> char \<Rightarrow> char \<Rightarrow> bool" where
  "in_range lo hi c = ((of_char lo :: nat) \<le> of_char c \<and> (of_char c :: nat) \<le> of_char hi)"

definition to_lower :: "char \<Rightarrow> char" where
  "to_lower c = (if in_range CHR ''A'' CHR ''Z'' c then char_of ((of_char c :: nat) + 32) else c)"

definition ToLower :: "string \<Rightarrow> string" where
  "ToLower s = map to_lower s"

text \<open>\<open>strings.Trim(s, cutset)\<close>: all leading and trailing bytes contained in the cutset go.\<close>

definition Trim :: "string \<Rightarrow> string \<Rightarrow> string" where
  "Trim s cutset =
     rev (dropWhile (\<lambda>c. c \<in> set cutset) (rev (dropWhile (\<lambda>c. c \<in> set cutset) s)))"

definition HasPrefix :: "string \<Rightarrow> string \<Rightarrow> bool" where
  "HasPrefix s pre = (take (length pre) s = pre)"

text \<open>
  \<open>filepath.Join\<close> drops empty elements and puts a separator between the others.
  The final \<open>Clean\<close> of the Go function is not modelled.
\<close>

fun join_sep :: "string list \<Rightarrow> string" where
  "join_sep [] = []"
| "join_sep [x] = x"
| "join_sep (x # y # r) = x @ ''/'' @ join_sep (y # r)"

definition filepath_Join :: "string list \<Rightarrow> string" where
  "filepath_Join elems = join_sep (filter (\<lambda>x. x \<noteq> []) elems)"

text \<open>\<open>hex.EncodeToString\<close>: two lowercase hexadecimal digits per byte.\<close>

definition hexdigit :: "nat \<Rightarrow> char" where
  "hexdigit n = ''0123456789abcdef'' ! n"

definition hex_EncodeToString :: "8 word list \<Rightarrow> string" where
  "hex_EncodeToString bs =
     concat (map (\<lambda>b. [hexdigit (unat b div 16), hexdigit (unat b mod 16)]) bs)"

subsection \<open>The fragment of \<open>regexp\<close> the daemon uses\<close>

text \<open>
  Every pattern of the daemon is a concatenation of character classes with a repetition
  count: \<open>Rep cls lo hi\<close> is \<open>cls{lo,hi}\<close>, with \<open>hi = None\<close> for an unbounded
  repetition.  The classes that occur are \<open>.\<close> (any character except line feed),
  \<open>[a-z0-9]\<close>, \<open>\<bsol>d\<close>, the literal \<open>-\<close> and \<open>[^a-z0-9-]\<close>.
\<close>

datatype rx = Rep "char \<Rightarrow> bool" nat "nat option"

definition any_char :: "char \<Rightarrow> bool" where
  "any_char c = (c \<noteq> CHR 0x0A)"

definition lower_alnum :: "char \<Rightarrow> bool" where
  "lower_alnum c = (in_range CHR ''a'' CHR ''z'' c \<or> in_range CHR ''0'' CHR ''9'' c)"

definition digit :: "char \<Rightarrow> bool" where
  "digit c = in_range CHR ''0'' CHR ''9'' c"

definition dash :: "char \<Rightarrow> bool" where
  "dash c = (c = CHR ''-'')"

definition hostname_char :: "char \<Rightarrow> bool" where
  "hostname_char c =
     (in_range CHR ''a'' CHR ''z'' c \<or> in_range CHR ''0'' CHR ''9'' c \<or> c = CHR ''-'')"

text \<open>
  The matcher is the backtracking search of the regexp engine on this fragment: a
  repetition first takes as many characters as it can (\<open>most\<close>) and gives them back one
  at a time (\<open>try_counts\<close> walks the counts downwards) until the rest of the pattern
  matches up to the end of the text.  The result lists the text each item consumed.
\<close>

fun try_counts :: "(nat \<Rightarrow> 'a option) \<Rightarrow> nat list \<Rightarrow> 'a option" where
  "try_counts f [] = None"
| "try_counts f (n # ns) = (case f n of Some r \<Rightarrow> Some r | None \<Rightarrow> try_counts f ns)"

definition most :: "(char \<Rightarrow> bool) \<Rightarrow> nat option \<Rightarrow> string \<Rightarrow> nat" where
  "most p hi s = (case hi of None \<Rightarrow> length (takeWhile p s)
                  | Some h \<Rightarrow> min h (length (takeWhile p s)))"

fun match_end :: "rx list \<Rightarrow> string \<Rightarrow> string list option" where
  "match_end [] s = (if s = [] then Some [] else None)"
| "match_end (Rep p lo hi # rs) s =
     try_counts (\<lambda>n. map_option (Cons (take n s)) (match_end rs (drop n s)))
                (rev [lo ..< Suc (most p hi s)])"

text \<open>
  \<open>MatchString\<close> for a pattern that ends in \<open>$\<close> and does not start with \<open>^\<close>: the
  match may start at any offset, leftmost first.
\<close>

fun MatchString :: "rx list \<Rightarrow> string \<Rightarrow> bool" where
  "MatchString rs [] = (match_end rs [] \<noteq> None)"
| "MatchString rs (c # s) = (match_end rs (c # s) \<noteq> None \<or> MatchString rs s)"

text \<open>
  \<open>FindStringSubmatch\<close> for a pattern of the form \<open>^(item)rest$\<close>: \<open>nil\<close> (the
  empty list) without a match, otherwise the whole match followed by the text of the
  one capture group, which spans the first item.
\<close>

definition FindStringSubmatch :: "rx list \<Rightarrow> string \<Rightarrow> string list" where
  "FindStringSubmatch rs s =
     (case match_end rs s of None \<Rightarrow> [] | Some segs \<Rightarrow> [s, hd segs])"

text \<open>
  \<open>ReplaceAllString\<close> for a pattern of one item without anchors: scanning from the
  left, every longest run that matches is replaced; other characters are copied.
\<close>

function ReplaceAllString :: "rx \<Rightarrow> string \<Rightarrow> string \<Rightarrow> string" where
  "ReplaceAllString (Rep p lo hi) s repl =
     (if s = [] then []
      else let n = most p hi s in
        if lo \<le> n \<and> 0 < n then repl @ ReplaceAllString (Rep p lo hi) (drop n s) repl
        else hd s # ReplaceAllString (Rep p lo hi) (tl s) repl)"
  by pat_completeness auto
termination
  by (relation "measure (\<lambda>(r, s, repl). length s)") auto

declare ReplaceAllString.simps [simp del]

section \<open>Hostname derivation (pods.go)\<close>

definition replicaSetPattern :: "rx list" where
  "replicaSetPattern =
     [Rep any_char 1 None, Rep dash 1 (Some 1), Rep lower_alnum 8 (Some 10),
      Rep dash 1 (Some 1), Rep lower_alnum 5 (Some 5)]"

definition deploymentPattern :: "rx list" where
  "deploymentPattern = [Rep any_char 1 None, Rep dash 1 (Some 1), Rep lower_alnum 8 (Some 10)]"

definition statefulSetOrdinalPattern :: "rx list" where
  "statefulSetOrdinalPattern = [Rep dash 1 (Some 1), Rep digit 1 (Some 3)]"

definition hostnameInvalidCharsPattern :: rx where
  "hostnameInvalidCharsPattern = Rep (\<lambda>c. \<not> hostname_char c) 1 (Some 1)"

definition hostnameMultipleDashPattern :: rx where
  "hostnameMultipleDashPattern = Rep dash 1 None"

definition defaultVethMTU :: nat where
  "defaultVethMTU = 1420"

definition stripKubernetesSuffixes :: "string \<Rightarrow> string" where
  "stripKubernetesSuffixes podName =
     (if MatchString statefulSetOrdinalPattern podName then podName
      else let matches = FindStringSubmatch replicaSetPattern podName in
        if length matches > 1 then matches ! 1
        else let matches = FindStringSubmatch deploymentPattern podName in
          if length matches > 1 then matches ! 1
          else podName)"

definition sanitizeHostname :: "string \<Rightarrow> string" where
  "sanitizeHostname s0 =
     (let s = ToLower s0;
          s = ReplaceAllString hostnameInvalidCharsPattern s ''-'';
          s = ReplaceAllString hostnameMultipleDashPattern s ''-'';
          s = Trim s ''-''
      in if length s > 63 then take 63 s else s)"

definition tunNameForContainer :: "string \<Rightarrow> string" where
  "tunNameForContainer containerID =
     (let suffix = containerID;
          suffix = (if length suffix > 8 then take 8 suffix else suffix)
      in ''ts-'' @ suffix)"

section \<open>Data model (pods.go, oauth.go, main.go)\<close>

text \<open>
  \<open>netip.Addr\<close>: the zero value is invalid; a valid address is IPv4 or IPv6 and is
  carried here in its textual form.
\<close>

datatype Addr = NoAddr | IPv4 string | IPv6 string

definition IsValid :: "Addr \<Rightarrow> bool" where
  "IsValid a = (a \<noteq> NoAddr)"

definition Is4 :: "Addr \<Rightarrow> bool" where
  "Is4 a = (case a of IPv4 _ \<Rightarrow> True | _ \<Rightarrow> False)"

definition Is6 :: "Addr \<Rightarrow> bool" where
  "Is6 a = (case a of IPv6 _ \<Rightarrow> True | _ \<Rightarrow> False)"

definition Addr_String :: "Addr \<Rightarrow> string" where
  "Addr_String a = (case a of NoAddr \<Rightarrow> ''invalid IP'' | IPv4 s \<Rightarrow> s | IPv6 s \<Rightarrow> s)"

text \<open>
  \<open>ManagedServer\<close>.  The engine objects behind \<open>Backend\<close>, \<open>Engine\<close>, \<open>Sys\<close> and
  \<open>NetMon\<close> belong to the Tailscale libraries; a handle is represented by the container
  id the object was built for, and \<open>NetMon\<close> may be \<open>nil\<close>.
\<close>

record ManagedServer =
  Backend :: string
  Engine :: string
  Sys :: string
  NetMon :: "string option"
  ContainerID :: string
  PodName :: string
  Namespace :: string
  Hostname :: string
  ClusterIP :: string
  HostVethName :: string
  TailscaleIPv4 :: Addr
  TailscaleIPv6 :: Addr
  CreatedAt :: nat

record PodMetadata =
  md_ContainerID :: string
  md_PodName :: string
  md_Namespace :: string
  md_Hostname :: string
  md_TailscaleIPv4 :: string
  md_TailscaleIPv6 :: string
  md_CreatedAt :: nat
  md_NetnsPath :: string
  md_HostVethName :: string
  md_ClusterIP :: string

text \<open>
  \<open>OAuthManager\<close> as \<open>oauth.go\<close> declares it; the token cache, the semaphore and the
  rate-limit timestamp are runtime state that the environment below stands for.
\<close>

record OAuthManager =
  clientID :: string
  clientSecret :: string
  baseURL :: string
  tags :: "string list"

record authKeyCreate =
  Reusable :: bool
  Ephemeral :: bool
  Preauthorized :: bool
  Tags :: "string list"

record authKeyDevices =
  Create :: authKeyCreate

record authKeyCapabilities =
  Devices :: authKeyDevices

record authKeyRequest =
  Capabilities :: authKeyCapabilities
  ExpirySeconds :: int
  Description :: string

record PodManager =
  stateDir :: string
  clusterName :: string
  oauthMgr :: OAuthManager
  servers :: "string \<rightharpoonup> ManagedServer"

text \<open>A Go \<open>error\<close> is the chain of its context messages, outermost first.\<close>

type_synonym error = "string list"

section \<open>Effects and environment\<close>

text \<open>
  The daemon acts on the kernel, the file system, the control API and the engine
  libraries.  A call that creates something is recorded as an event when it succeeds;
  a cleanup call (close, shutdown, delete, remove) is recorded when it is made, since
  the code does not look at its result.  Log output is not recorded.
\<close>

datatype route_dst = Cidr string | Host32 Addr

datatype event =
    EvKeyRequest authKeyRequest
  | EvMkdirAll string
  | EvRemoveAll string
  | EvWriteFile string
  | EvSaveMetadata string PodMetadata
  | EvTunNew string
  | EvTunClose string
  | EvLinkSetUp string
  | EvLinkAdd string string nat
  | EvLinkSetNs string
  | EvLinkDel string
  | EvAddrAdd string Addr
  | EvRouteAdd route_dst string
  | EvNetMonNew string
  | EvNetMonClose string
  | EvEngineNew string
  | EvEngineClose string
  | EvNetstackNew string
  | EvNetstackClose string
  | EvFileStoreNew string
  | EvBackendNew string
  | EvBackendStart string string string
  | EvBackendShutdown string
  | EvStartLogin string

text \<open>The call sites whose failure the code tests.\<close>

datatype site =
    SemAcquire | RateWait | GetAccessToken | KeyMarshal | KeyNewRequest | KeyHttpDo
  | KeyStatusOK | KeyDecode
  | MkdirAllPodState | TunNew | TunLinkByName | TunLinkSetUp | NetMonNew | EngineNew
  | NetstackCreate | FileStoreNew | LogIDNew | BackendNew | NetstackStart | BackendStart
  | StartLogin | SaveMetadataWrite
  | GetNS | RandRead | VethLinkAdd | PodLinkByName | HostLinkByNameInNS | LinkSetNsFd
  | PodAddrAdd | PodLinkSetUp | PodRouteAdd | HostLinkByName | HostLinkSetUp
  | HostRouteAdd | ProxyArpWrite | IpForwardWrite | TunLinkForRoute | TunRouteAdd

record status =
  BackendState :: string
  TailscaleIPs :: "Addr list"

datatype readdir_result = DirNotExist | DirError | DirEntries "(string \<times> bool) list"

text \<open>
  The environment of one operation: which calls fail, and what the outside world
  answers.  \<open>polls\<close> holds, for each round of the wait for an address, the status the
  backend reports and whether the deadline has passed when the round ends; the 60 second
  deadline bounds the number of rounds, so the end of the list is the deadline.
\<close>

record env =
  fails :: "site \<Rightarrow> bool"
  rate_limited :: bool
  auth_key :: string
  tun_actual_name :: "string \<Rightarrow> string"
  needs_login :: bool
  polls :: "(status \<times> bool) list"
  rand_bytes :: "8 word list"
  now :: nat
  backend_state :: "string \<Rightarrow> string"
  link_exists :: "string \<Rightarrow> bool"
  link_list :: "string list option"
  read_dir :: "string \<Rightarrow> readdir_result"
  load_meta :: "string \<Rightarrow> error + PodMetadata"
  path_exists :: "string \<Rightarrow> bool"
  state_file_missing :: "string \<Rightarrow> bool"
  parse_addr :: "string \<Rightarrow> Addr option"
  recover_backend :: "string \<Rightarrow> (error + ManagedServer) \<times> event list"

section \<open>Credential manager (oauth.go) and daemon start-up (main.go)\<close>

definition NewOAuthManager :: "string \<Rightarrow> string \<Rightarrow> string list \<Rightarrow> OAuthManager" where
  "NewOAuthManager cid secret tgs =
     \<lparr>clientID = cid, clientSecret = secret, baseURL = ''https://api.tailscale.com'',
      tags = tgs\<rparr>"

definition keyReq :: "OAuthManager \<Rightarrow> string \<Rightarrow> string \<Rightarrow> authKeyRequest" where
  "keyReq m podName namespace =
     \<lparr>Capabilities = \<lparr>Devices = \<lparr>Create =
        \<lparr>Reusable = False, Ephemeral = False, Preauthorized = True, Tags = tags m\<rparr>\<rparr>\<rparr>,
      ExpirySeconds = 300,
      Description = ''tailscale-cni '' @ namespace @ '' '' @ podName\<rparr>"

definition CreateAuthKey ::
  "env \<Rightarrow> OAuthManager \<Rightarrow> string \<Rightarrow> string \<Rightarrow> (error + string) \<times> event list" where
  "CreateAuthKey e m podName namespace =
     (if fails e SemAcquire then (Inl [''context done''], [])
      else if rate_limited e \<and> fails e RateWait then (Inl [''context done''], [])
      else if fails e GetAccessToken then (Inl [''getting access token''], [])
      else if fails e KeyMarshal then (Inl [''marshaling auth key request''], [])
      else if fails e KeyNewRequest then (Inl [''creating auth key request''], [])
      else if fails e KeyHttpDo
        then (Inl [''requesting auth key''], [EvKeyRequest (keyReq m podName namespace)])
      else if fails e KeyStatusOK
        then (Inl [''auth key request failed''], [EvKeyRequest (keyReq m podName namespace)])
      else if fails e KeyDecode
        then (Inl [''decoding auth key response''], [EvKeyRequest (keyReq m podName namespace)])
      else (Inr (auth_key e), [EvKeyRequest (keyReq m podName namespace)]))"

text \<open>
  \<open>main\<close> declares the flag \<open>--auth-key-ttl\<close> (a \<open>time.Duration\<close>, counted in
  nanoseconds, default five minutes) and calls
  \<open>NewOAuthManager(clientID, clientSecret, tags, *authKeyTTL)\<close>.  The constructor of
  \<open>oauth.go\<close> has three parameters and \<open>OAuthManager\<close> has no field for the
  duration, so the manager \<open>main\<close> obtains is the one below.
\<close>

definition Second :: int where
  "Second = 1000000000"

definition Minute :: int where
  "Minute = 60 * Second"

definition default_authKeyTTL :: int where
  "default_authKeyTTL = 5 * Minute"

definition main_oauthMgr :: "string \<Rightarrow> string \<Rightarrow> string list \<Rightarrow> int \<Rightarrow> OAuthManager" where
  "main_oauthMgr cid secret tgs authKeyTTL = NewOAuthManager cid secret tgs"

definition NewPodManager :: "string \<Rightarrow> string \<Rightarrow> OAuthManager \<Rightarrow> PodManager" where
  "NewPodManager sd cn om =
     \<lparr>stateDir = sd, clusterName = cn, oauthMgr = om, servers = Map.empty\<rparr>"

section \<open>Pod manager (pods.go)\<close>

subsection \<open>Waiting for the overlay address\<close>

text \<open>
  The inner loop of the wait: the first IPv4 and the first IPv6 address of the status
  are kept, an address already found is not replaced.
\<close>

fun scan_ips :: "Addr list \<Rightarrow> Addr \<Rightarrow> Addr \<Rightarrow> Addr \<times> Addr" where
  "scan_ips [] v4 v6 = (v4, v6)"
| "scan_ips (ip # ips) v4 v6 =
     (if Is4 ip \<and> \<not> IsValid v4 then scan_ips ips ip v6
      else if Is6 ip \<and> \<not> IsValid v6 then scan_ips ips v4 ip
      else scan_ips ips v4 v6)"

fun wait_for_ip :: "(status \<times> bool) list \<Rightarrow> Addr \<Rightarrow> Addr \<Rightarrow> error + (Addr \<times> Addr)" where
  "wait_for_ip [] v4 v6 = Inl [''timeout waiting for Tailscale IP'']"
| "wait_for_ip ((st, deadline) # rest) v4 v6 =
     (if BackendState st = ''Running'' \<and> length (TailscaleIPs st) > 0 then
        (case scan_ips (TailscaleIPs st) v4 v6 of (v4', v6') \<Rightarrow>
           if IsValid v4' then Inr (v4', v6')
           else if deadline then Inl [''timeout waiting for Tailscale IP'']
           else wait_for_ip rest v4' v6')
      else if deadline then Inl [''timeout waiting for Tailscale IP'']
      else wait_for_ip rest v4 v6)"

subsection \<open>Bridge builder\<close>

definition setupVethBridge ::
  "env \<Rightarrow> string \<Rightarrow> string \<Rightarrow> string \<Rightarrow> Addr \<Rightarrow> nat \<Rightarrow> (error + string) \<times> event list" where
  "setupVethBridge e netnsPath podIfName tunName tailscaleIP mtu =
     (if fails e GetNS then (Inl [''getting netns''], [])
      else if fails e RandRead then (Inl [''generating random veth name''], [])
      else let hostVethName = ''veth'' @ hex_EncodeToString (rand_bytes e) in
      if fails e VethLinkAdd then (Inl [''creating veth pair''], [])
      else let ev = [EvLinkAdd podIfName hostVethName mtu] in
      if fails e PodLinkByName then (Inl [''getting pod interface''], ev)
      else if fails e HostLinkByNameInNS then (Inl [''getting host interface''], ev)
      else if fails e LinkSetNsFd then (Inl [''moving host veth''], ev)
      else let ev = ev @ [EvLinkSetNs hostVethName] in
      if fails e PodAddrAdd then (Inl [''adding IP to pod interface''], ev)
      else let ev = ev @ [EvAddrAdd podIfName tailscaleIP] in
      if fails e PodLinkSetUp then (Inl [''bringing up pod interface''], ev)
      else let ev = ev @ [EvLinkSetUp podIfName] in
      if fails e PodRouteAdd then (Inl [''adding Tailscale route''], ev)
      else let ev = ev @ [EvRouteAdd (Cidr ''100.64.0.0/10'') podIfName] in
      if fails e HostLinkByName then (Inl [''getting host veth''], ev)
      else if fails e HostLinkSetUp then (Inl [''bringing up host veth''], ev)
      else let ev = ev @ [EvLinkSetUp hostVethName];
               ev = ev @ (if fails e HostRouteAdd then []
                          else [EvRouteAdd (Host32 tailscaleIP) hostVethName]);
               ev = ev @ (if fails e ProxyArpWrite then []
                          else [EvWriteFile (''/proc/sys/net/ipv4/conf/'' @ hostVethName @ ''/proxy_arp'')]);
               ev = ev @ (if fails e IpForwardWrite then []
                          else [EvWriteFile ''/proc/sys/net/ipv4/ip_forward''])
      in
      if fails e TunLinkForRoute then (Inl [''getting TUN link for routing''], ev)
      else let ev = ev @ (if fails e TunRouteAdd then []
                          else [EvRouteAdd (Cidr ''100.64.0.0/10'') tunName])
      in (Inr hostVethName, ev))"

subsection \<open>Persistence\<close>

definition saveMetadata ::
  "env \<Rightarrow> PodManager \<Rightarrow> string \<Rightarrow> ManagedServer \<Rightarrow> string \<Rightarrow> error option \<times> event list" where
  "saveMetadata e pm containerID managed netnsPath =
     (let meta = \<lparr>md_ContainerID = ContainerID managed, md_PodName = PodName managed,
                  md_Namespace = Namespace managed, md_Hostname = Hostname managed,
                  md_TailscaleIPv4 = Addr_String (TailscaleIPv4 managed),
                  md_TailscaleIPv6 = (if IsValid (TailscaleIPv6 managed)
                                      then Addr_String (TailscaleIPv6 managed) else ''''),
                  md_CreatedAt = CreatedAt managed, md_NetnsPath = netnsPath,
                  md_HostVethName = HostVethName managed, md_ClusterIP = ClusterIP managed\<rparr>;
          metaPath = filepath_Join [stateDir pm, ''pods'', containerID, ''metadata.json'']
      in if fails e SaveMetadataWrite then (Some [''write metadata.json''], [])
         else (None, [EvSaveMetadata metaPath meta]))"

subsection \<open>Add\<close>

text \<open>The cleanup sequences of \<open>AddPod\<close>, as the failure branches write them.\<close>

definition unwind_tun :: "string \<Rightarrow> string \<Rightarrow> event list" where
  "unwind_tun tun dir = [EvTunClose tun, EvRemoveAll dir]"

definition unwind_netmon :: "string \<Rightarrow> string \<Rightarrow> string \<Rightarrow> event list" where
  "unwind_netmon c tun dir = [EvNetMonClose c, EvTunClose tun, EvRemoveAll dir]"

definition unwind_engine :: "string \<Rightarrow> string \<Rightarrow> string \<Rightarrow> event list" where
  "unwind_engine c tun dir = [EvEngineClose c, EvNetMonClose c, EvTunClose tun, EvRemoveAll dir]"

definition unwind_netstack :: "string \<Rightarrow> string \<Rightarrow> event list" where
  "unwind_netstack c dir = [EvNetstackClose c, EvEngineClose c, EvNetMonClose c, EvRemoveAll dir]"

definition unwind_backend :: "string \<Rightarrow> string \<Rightarrow> event list" where
  "unwind_backend c dir =
     [EvBackendShutdown c, EvNetstackClose c, EvEngineClose c, EvNetMonClose c, EvRemoveAll dir]"

text \<open>
  \<open>AddPod\<close> in three parts, in the order of the source: the engine is built up to the
  local backend (\<open>build_engine\<close>), the backend is started and the address awaited
  (\<open>start_engine\<close>), then the bridge is built and the instance registered.  Each part
  returns the events it caused, cleanup included.
\<close>

definition build_engine ::
  "env \<Rightarrow> string \<Rightarrow> string \<Rightarrow> (error + string) \<times> event list" where
  "build_engine e containerID podStateDir =
     (let tunName = tunNameForContainer containerID in
      if fails e TunNew then (Inl [''creating TUN device''], [EvRemoveAll podStateDir])
      else let actualTunName = tun_actual_name e tunName; ev = [EvTunNew actualTunName] in
      if fails e TunLinkByName
        then (Inl [''getting TUN link''], ev @ unwind_tun actualTunName podStateDir)
      else if fails e TunLinkSetUp
        then (Inl [''bringing up TUN''], ev @ unwind_tun actualTunName podStateDir)
      else let ev = ev @ [EvLinkSetUp actualTunName] in
      if fails e NetMonNew
        then (Inl [''creating network monitor''], ev @ unwind_tun actualTunName podStateDir)
      else let ev = ev @ [EvNetMonNew containerID] in
      if fails e EngineNew
        then (Inl [''creating wgengine''], ev @ unwind_netmon containerID actualTunName podStateDir)
      else let ev = ev @ [EvEngineNew containerID] in
      if fails e NetstackCreate
        then (Inl [''creating netstack''], ev @ unwind_engine containerID actualTunName podStateDir)
      else let ev = ev @ [EvNetstackNew containerID] in
      if fails e FileStoreNew
        then (Inl [''creating state store''], ev @ unwind_netstack containerID podStateDir)
      else let ev = ev @ [EvFileStoreNew (filepath_Join [podStateDir, ''tailscale.state''])] in
      if fails e LogIDNew
        then (Inl [''creating log ID''], ev @ unwind_netstack containerID podStateDir)
      else if fails e BackendNew
        then (Inl [''creating LocalBackend''], ev @ unwind_netstack containerID podStateDir)
      else (Inr actualTunName, ev @ [EvBackendNew containerID]))"

definition start_engine ::
  "env \<Rightarrow> string \<Rightarrow> string \<Rightarrow> string \<Rightarrow> string \<Rightarrow> (error + (Addr \<times> Addr)) \<times> event list" where
  "start_engine e containerID podStateDir hostname authKey =
     (if fails e NetstackStart
        then (Inl [''starting netstack''], unwind_backend containerID podStateDir)
      else if fails e BackendStart
        then (Inl [''starting LocalBackend''], unwind_backend containerID podStateDir)
      else let ev = [EvBackendStart containerID hostname authKey] in
      if needs_login e \<and> fails e StartLogin
        then (Inl [''starting login''], ev @ unwind_backend containerID podStateDir)
      else let ev = ev @ (if needs_login e then [EvStartLogin containerID] else []) in
      case wait_for_ip (polls e) NoAddr NoAddr of
        Inl err \<Rightarrow> (Inl err, ev @ unwind_backend containerID podStateDir)
      | Inr ips \<Rightarrow> (Inr ips, ev))"

definition AddPod ::
  "env \<Rightarrow> PodManager \<Rightarrow> string \<Rightarrow> string \<Rightarrow> string \<Rightarrow> string \<Rightarrow> string \<Rightarrow> string
   \<Rightarrow> (error + ManagedServer) \<times> PodManager \<times> event list" where
  "AddPod e pm containerID netnsPath ifName podName namespace clusterIP =
     (case servers pm containerID of
        Some srv \<Rightarrow> (Inr srv, pm, [])
      | None \<Rightarrow>
        let cleanPodName = stripKubernetesSuffixes podName;
            hostname = sanitizeHostname (clusterName pm @ ''-'' @ namespace @ ''-'' @ cleanPodName)
        in
        case CreateAuthKey e (oauthMgr pm) podName namespace of
          (Inl err, ev0) \<Rightarrow> (Inl (''creating auth key'' # err), pm, ev0)
        | (Inr authKey, ev0) \<Rightarrow>
        let podStateDir = filepath_Join [stateDir pm, ''pods'', containerID] in
        if fails e MkdirAllPodState then (Inl [''creating state directory''], pm, ev0)
        else let ev0 = ev0 @ [EvMkdirAll podStateDir] in
        case build_engine e containerID podStateDir of
          (Inl err, ev1) \<Rightarrow> (Inl err, pm, ev0 @ ev1)
        | (Inr actualTunName, ev1) \<Rightarrow>
        case start_engine e containerID podStateDir hostname authKey of
          (Inl err, ev2) \<Rightarrow> (Inl err, pm, ev0 @ ev1 @ ev2)
        | (Inr (tailscaleIPv4, tailscaleIPv6), ev2) \<Rightarrow>
        case setupVethBridge e netnsPath ifName actualTunName tailscaleIPv4 defaultVethMTU of
          (Inl err, ev3) \<Rightarrow>
            (Inl (''setting up veth bridge'' # err), pm,
             ev0 @ ev1 @ ev2 @ ev3 @ unwind_backend containerID podStateDir)
        | (Inr hostVethName, ev3) \<Rightarrow>
        let managed = \<lparr>Backend = containerID, Engine = containerID, Sys = containerID,
                       NetMon = Some containerID, ContainerID = containerID,
                       PodName = podName, Namespace = namespace, Hostname = hostname,
                       ClusterIP = clusterIP, HostVethName = hostVethName,
                       TailscaleIPv4 = tailscaleIPv4, TailscaleIPv6 = tailscaleIPv6,
                       CreatedAt = now e\<rparr>;
            pm' = pm\<lparr>servers := (servers pm)(containerID \<mapsto> managed)\<rparr>
        in (Inr managed, pm',
            ev0 @ ev1 @ ev2 @ ev3 @ snd (saveMetadata e pm' containerID managed netnsPath)))"

subsection \<open>Delete and Check\<close>

definition DeletePod ::
  "env \<Rightarrow> PodManager \<Rightarrow> string \<Rightarrow> error option \<times> PodManager \<times> event list" where
  "DeletePod e pm containerID =
     (case servers pm containerID of
        None \<Rightarrow> (None, pm, [])
      | Some managed \<Rightarrow>
        let ev = [EvBackendShutdown (Backend managed), EvEngineClose (Engine managed)];
            ev = ev @ (case NetMon managed of None \<Rightarrow> [] | Some h \<Rightarrow> [EvNetMonClose h]);
            ev = ev @ (if HostVethName managed \<noteq> '''' \<and> link_exists e (HostVethName managed)
                       then [EvLinkDel (HostVethName managed)] else []);
            podStateDir = filepath_Join [stateDir pm, ''pods'', containerID];
            ev = ev @ [EvRemoveAll podStateDir]
        in (None, pm\<lparr>servers := (servers pm)(containerID := None)\<rparr>, ev))"

definition CheckPod ::
  "env \<Rightarrow> PodManager \<Rightarrow> string \<Rightarrow> (bool \<times> string \<times> error option) \<times> PodManager \<times> event list" where
  "CheckPod e pm containerID =
     (case servers pm containerID of
        None \<Rightarrow> ((False, ''pod not found'', None), pm, [])
      | Some managed \<Rightarrow>
        let st = backend_state e (Backend managed) in
        if st \<noteq> ''Running'' then ((False, ''backend state is '' @ st, None), pm, [])
        else ((True, ''healthy'', None), pm, []))"

subsection \<open>Orphan cleanup\<close>

definition cleanupOrphanedPod :: "env \<Rightarrow> PodManager \<Rightarrow> string \<Rightarrow> string \<Rightarrow> event list" where
  "cleanupOrphanedPod e pm containerID hostVethName =
     (let tunName = tunNameForContainer containerID;
          ev = (if link_exists e tunName then [EvLinkDel tunName] else []);
          ev = ev @ (if hostVethName \<noteq> '''' \<and> link_exists e hostVethName
                     then [EvLinkDel hostVethName] else []);
          podStateDir = filepath_Join [stateDir pm, ''pods'', containerID]
      in ev @ [EvRemoveAll podStateDir])"

definition knownTUNs :: "PodManager \<Rightarrow> string set" where
  "knownTUNs pm = tunNameForContainer ` dom (servers pm)"

definition CleanupOrphanedResources :: "env \<Rightarrow> PodManager \<Rightarrow> event list" where
  "CleanupOrphanedResources e pm =
     (case link_list e of
        None \<Rightarrow> []
      | Some links \<Rightarrow>
          concat (map (\<lambda>name. if HasPrefix name ''ts-'' \<and> name \<notin> knownTUNs pm
                               then [EvLinkDel name] else []) links))"

subsection \<open>Recovery\<close>

definition netnsExists :: "env \<Rightarrow> string \<Rightarrow> bool" where
  "netnsExists e netnsPath = (if netnsPath = '''' then False else path_exists e netnsPath)"

text \<open>
  \<open>recoverPodBackend\<close> rebuilds the engine from the persisted state; what it returns
  and the events it causes are given by the environment.
\<close>

definition recoverPod ::
  "env \<Rightarrow> PodManager \<Rightarrow> string \<Rightarrow> error option \<times> PodManager \<times> event list" where
  "recoverPod e pm containerID =
     (case load_meta e containerID of
        Inl err \<Rightarrow> (Some (''loading metadata'' # err), pm, [])
      | Inr meta \<Rightarrow>
        if \<not> netnsExists e (md_NetnsPath meta)
          then (None, pm, cleanupOrphanedPod e pm containerID (md_HostVethName meta))
        else if state_file_missing e
                  (filepath_Join [stateDir pm, ''pods'', containerID, ''tailscale.state''])
          then (None, pm, cleanupOrphanedPod e pm containerID (md_HostVethName meta))
        else case parse_addr e (md_TailscaleIPv4 meta) of
          None \<Rightarrow> (Some [''parsing stored Tailscale IP''], pm, [])
        | Some tailscaleIPv4 \<Rightarrow>
          (case recover_backend e containerID of
             (Inl err, ev) \<Rightarrow> (Some (''recovering backend'' # err), pm, ev)
           | (Inr managed, ev) \<Rightarrow>
             let pm' = pm\<lparr>servers := (servers pm)(containerID \<mapsto> managed)\<rparr>;
                 ev = ev @ (if TailscaleIPv4 managed \<noteq> tailscaleIPv4
                            then snd (saveMetadata e pm' containerID managed (md_NetnsPath meta))
                            else [])
             in (None, pm', ev)))"

text \<open>
  The pass over the entries of the \<open>pods\<close> directory.  The entries of a directory
  have distinct names, so the environment in effect while an entry is handled is
  given per entry name.
\<close>

fun recover_loop ::
  "(string \<Rightarrow> env) \<Rightarrow> (string \<times> bool) list \<Rightarrow> PodManager \<Rightarrow> nat \<Rightarrow> error list \<Rightarrow> event list
   \<Rightarrow> (nat \<times> error list) \<times> PodManager \<times> event list" where
  "recover_loop envs [] pm recovered errors ev = ((recovered, errors), pm, ev)"
| "recover_loop envs ((name, isDir) # rest) pm recovered errors ev =
     (if \<not> isDir then recover_loop envs rest pm recovered errors ev
      else case recoverPod (envs name) pm name of
        (Some err, pm', ev') \<Rightarrow>
          let vethName = (case load_meta (envs name) name of
                            Inr meta \<Rightarrow> md_HostVethName meta | Inl _ \<Rightarrow> '''')
          in recover_loop envs rest pm' recovered (errors @ [(''pod '' @ name) # err])
               (ev @ ev' @ cleanupOrphanedPod (envs name) pm' name vethName)
      | (None, pm', ev') \<Rightarrow>
          recover_loop envs rest pm' (recovered + 1) errors (ev @ ev'))"

definition RecoverPods ::
  "env \<Rightarrow> (string \<Rightarrow> env) \<Rightarrow> PodManager \<Rightarrow> (nat \<times> error list) \<times> PodManager \<times> event list" where
  "RecoverPods e envs pm =
     (case read_dir e (filepath_Join [stateDir pm, ''pods'']) of
        DirNotExist \<Rightarrow> ((0, []), pm, [])
      | DirError \<Rightarrow> ((0, [[''reading pods directory'']]), pm, [])
      | DirEntries entries \<Rightarrow> recover_loop envs entries pm 0 [] [])"

subsection \<open>Sequences of operations\<close>

datatype op =
    Add string string string string string string
  | Delete string
  | Check string

fun step :: "env \<Rightarrow> op \<Rightarrow> PodManager \<Rightarrow> PodManager \<times> event list" where
  "step e (Add c netnsPath ifName podName namespace clusterIP) pm =
     snd (AddPod e pm c netnsPath ifName podName namespace clusterIP)"
| "step e (Delete c) pm = snd (DeletePod e pm c)"
| "step e (Check c) pm = snd (CheckPod e pm c)"

fun run :: "(env \<times> op) list \<Rightarrow> PodManager \<Rightarrow> event list \<Rightarrow> PodManager \<times> event list" where
  "run [] pm ev = (pm, ev)"
| "run ((e, x) # rest) pm ev = (case step e x pm of (pm', ev') \<Rightarrow> run rest pm' (ev @ ev'))"

text \<open>
  The backends alive after a trace, per container id: those created and not yet shut
  down.
\<close>

definition live_backends :: "string \<Rightarrow> event list \<Rightarrow> int" where
  "live_backends c ev =
     int (count_list ev (EvBackendNew c)) - int (count_list ev (EvBackendShutdown c))"

section \<open>The specification's wording\<close>

subsection \<open>Suffix stripping rules\<close>

text \<open>
  The rules of the specification speak of a name of the form
  \<open><prefix>-<8..10 lowercase alphanumeric>-<exactly 5 lowercase alphanumeric>\<close>.  The
  prefix is what the group \<open>(.+)\<close> of the patterns admits: at least one character, none
  of them a line feed.
\<close>

definition prefix_ok :: "string \<Rightarrow> bool" where
  "prefix_ok p = (p \<noteq> [] \<and> list_all any_char p)"

definition ends_with_ordinal :: "string \<Rightarrow> bool" where
  "ends_with_ordinal name =
     (\<exists>p ds. name = p @ ''-'' @ ds \<and> 1 \<le> length ds \<and> length ds \<le> 3 \<and> list_all digit ds)"

definition replicaSet_form :: "string \<Rightarrow> string \<Rightarrow> bool" where
  "replicaSet_form name p =
     (\<exists>h r. name = p @ ''-'' @ h @ ''-'' @ r \<and> prefix_ok p \<and>
            8 \<le> length h \<and> length h \<le> 10 \<and> list_all lower_alnum h \<and>
            length r = 5 \<and> list_all lower_alnum r)"

definition deployment_form :: "string \<Rightarrow> string \<Rightarrow> bool" where
  "deployment_form name p =
     (\<exists>h. name = p @ ''-'' @ h \<and> prefix_ok p \<and>
          8 \<le> length h \<and> length h \<le> 10 \<and> list_all lower_alnum h)"

text \<open>A piece of text fits an item of a pattern.\<close>

fun seg_ok :: "rx \<Rightarrow> string \<Rightarrow> bool" where
  "seg_ok (Rep p lo hi) g =
     (lo \<le> length g \<and> (case hi of None \<Rightarrow> True | Some h \<Rightarrow> length g \<le> h) \<and> list_all p g)"

subsection \<open>Hostname sanitization steps\<close>

definition replace_invalid :: "string \<Rightarrow> string" where
  "replace_invalid s = map (\<lambda>c. if hostname_char c then c else CHR ''-'') s"

fun collapse_dashes :: "string \<Rightarrow> string" where
  "collapse_dashes (a # b # r) =
     (if a = CHR ''-'' \<and> b = CHR ''-'' then collapse_dashes (b # r)
      else a # collapse_dashes (b # r))"
| "collapse_dashes s = s"

definition trim_dashes :: "string \<Rightarrow> string" where
  "trim_dashes s = rev (dropWhile dash (rev (dropWhile dash s)))"

subsection \<open>Bridge build: fatal and tolerated failures\<close>





subsection \<open>Recovery pass: what each record contributes\<close>

definition pass_errors :: "(string \<Rightarrow> env) \<Rightarrow> PodManager \<Rightarrow> (string \<times> bool) list \<Rightarrow> error list" where
  "pass_errors envs pm entries =
     concat (map (\<lambda>(name, isDir).
        if isDir then (case fst (recoverPod (envs name) pm name) of
                         Some err \<Rightarrow> [(''pod '' @ name) # err] | None \<Rightarrow> [])
        else []) entries)"

definition pass_recovered :: "(string \<Rightarrow> env) \<Rightarrow> PodManager \<Rightarrow> (string \<times> bool) list \<Rightarrow> nat" where
  "pass_recovered envs pm entries =
     length (filter (\<lambda>(name, isDir). isDir \<and> fst (recoverPod (envs name) pm name) = None) entries)"

subsection \<open>Concrete inputs\<close>

definition quiet_env :: env where
  "quiet_env =
     \<lparr>fails = (\<lambda>s. False), rate_limited = False, auth_key = ''tskey-auth-k1'',
      tun_actual_name = (\<lambda>n. n), needs_login = False,
      polls = [(\<lparr>BackendState = ''Running'', TailscaleIPs = [IPv4 ''100.64.0.7'']\<rparr>, False)],
      rand_bytes = [0x1a, 0x2b, 0x3c, 0x4d], now = 0,
      backend_state = (\<lambda>h. ''Running''), link_exists = (\<lambda>n. True),
      link_list = Some [''lo'', ''eth0'', ''ts-c1'', ''ts-deadbeef''],
      read_dir = (\<lambda>d. DirEntries [(''c1'', True), (''c2'', True), (''c3'', True)]),
      load_meta = (\<lambda>c. Inl [''reading metadata'']),
      path_exists = (\<lambda>p. False), state_file_missing = (\<lambda>p. False),
      parse_addr = (\<lambda>s. None),
      recover_backend = (\<lambda>c. (Inl [''timeout waiting for Tailscale connection''], []))\<rparr>"

definition pm0 :: PodManager where
  "pm0 = NewPodManager ''/var/lib/tailscale-cni'' ''k8s''
           (main_oauthMgr ''id'' ''secret'' [''tag:k8s-pod''] (10 * Minute))"


definition srv1 :: ManagedServer where
  "srv1 = \<lparr>Backend = ''c1'', Engine = ''c1'', Sys = ''c1'', NetMon = Some ''c1'',
           ContainerID = ''c1'', PodName = ''web-7b5d9c6f8-xyz12'', Namespace = ''default'',
           Hostname = ''k8s-default-web'', ClusterIP = ''10.0.0.5'',
           HostVethName = ''veth1a2b3c4d'', TailscaleIPv4 = IPv4 ''100.64.0.7'',
           TailscaleIPv6 = NoAddr, CreatedAt = 0\<rparr>"

definition pm1 :: PodManager where
  "pm1 = pm0\<lparr>servers := [''c1'' \<mapsto> srv1]\<rparr>"


definition ops1 :: "(env \<times> op) list" where
  "ops1 =
     [(quiet_env, Add ''c1'' ''/proc/1234/ns/net'' ''ts0'' ''web-7b5d9c6f8-xyz12'' ''default''
                      ''10.0.0.5''),
      (quiet_env, Check ''c1''),
      (quiet_env, Add ''c1'' ''/proc/1234/ns/net'' ''ts0'' ''web-7b5d9c6f8-xyz12'' ''default''
                      ''10.0.0.5'')]"

definition meta_for :: "string \<Rightarrow> string \<Rightarrow> PodMetadata" where
  "meta_for c netns =
     \<lparr>md_ContainerID = c, md_PodName = ''web-7b5d9c6f8-xyz12'', md_Namespace = ''default'',
      md_Hostname = ''k8s-default-web'', md_TailscaleIPv4 = ''100.64.0.7'',
      md_TailscaleIPv6 = '''', md_CreatedAt = 0, md_NetnsPath = netns,
      md_HostVethName = ''veth1a2b3c4d'', md_ClusterIP = ''10.0.0.5''\<rparr>"

text \<open>
  A restart that finds three records: the namespace of \<open>c1\<close> is gone, the metadata of
  \<open>c2\<close> cannot be read, and \<open>c3\<close> recovers.
\<close>

definition restart_env :: env where
  "restart_env = quiet_env
     \<lparr>load_meta := (\<lambda>c. if c = ''c1'' then Inr (meta_for ''c1'' ''/proc/1/ns/net'')
                         else if c = ''c3'' then Inr (meta_for ''c3'' ''/proc/3/ns/net'')
                         else Inl [''reading metadata'']),
      path_exists := (\<lambda>p. p = ''/proc/3/ns/net''),
      parse_addr := (\<lambda>s. Some (IPv4 s)),
      recover_backend := (\<lambda>c. (Inr (srv1\<lparr>Backend := c, Engine := c, Sys := c,
                                           NetMon := Some c, ContainerID := c\<rparr>), []))\<rparr>"

text \<open>The invariant of the registry and the trace that Add, Delete and Check keep.\<close>

definition registry_inv :: "PodManager \<Rightarrow> event list \<Rightarrow> bool" where
  "registry_inv pm ev =
     (\<forall>c. live_backends c ev = (if servers pm c = None then 0 else 1) \<and>
          (\<forall>m. servers pm c = Some m \<longrightarrow> Backend m = c \<and> ContainerID m = c))"

subsection \<open>What an Add leaves behind\<close>








section \<open>The matcher finds exactly the texts that fit the pattern\<close>

lemma try_counts_Some: "try_counts f ns = Some r \<Longrightarrow> \<exists>n\<in>set ns. f n = Some r"
  by (induction ns) (auto split: option.splits)

lemma try_counts_hit: "n \<in> set ns \<Longrightarrow> f n \<noteq> None \<Longrightarrow> try_counts f ns \<noteq> None"
  by (induction ns) (auto split: option.splits)

lemma take_le_takeWhile: "n \<le> length (takeWhile p s) \<Longrightarrow> list_all p (take n s)"
proof -
  assume n: "n \<le> length (takeWhile p s)"
  have "take n (takeWhile p s @ dropWhile p s) = take n (takeWhile p s)"
    using n by (simp only: take_append) simp
  then have "take n s = take n (takeWhile p s)" by simp
  then have "set (take n s) \<subseteq> set (takeWhile p s)" by (simp add: set_take_subset)
  then show ?thesis by (auto simp: list_all_iff dest: set_takeWhileD)
qed

lemma most_le_takeWhile: "most p hi s \<le> length (takeWhile p s)"
  by (simp add: most_def split: option.splits)

lemma most_ge:
  "n \<le> length (takeWhile p s) \<Longrightarrow> (case hi of None \<Rightarrow> True | Some h \<Rightarrow> n \<le> h)
   \<Longrightarrow> n \<le> most p hi s"
  by (simp add: most_def split: option.splits)

lemma match_end_sound:
  "match_end rs s = Some segs \<Longrightarrow> concat segs = s \<and> list_all2 seg_ok rs segs"
proof (induction rs arbitrary: s segs)
  case Nil
  then show ?case by (simp split: if_splits)
next
  case (Cons r rs)
  obtain p lo hi where r: "r = Rep p lo hi" by (cases r)
  let ?f = "\<lambda>n. map_option (Cons (take n s)) (match_end rs (drop n s))"
  have "try_counts ?f (rev [lo ..< Suc (most p hi s)]) = Some segs"
    using Cons.prems r by (simp del: upt_Suc)
  then obtain n where n: "n \<in> set (rev [lo ..< Suc (most p hi s)])" and f: "?f n = Some segs"
    by (blast dest: try_counts_Some)
  from f obtain segs' where s': "match_end rs (drop n s) = Some segs'" "segs = take n s # segs'"
    by auto
  from Cons.IH[OF s'(1)] have ih: "concat segs' = drop n s" "list_all2 seg_ok rs segs'" by auto
  from n have lo: "lo \<le> n" and hi: "n \<le> most p hi s" by (simp_all del: upt_Suc)
  from hi most_le_takeWhile[of p hi s] have nt: "n \<le> length (takeWhile p s)" by simp
  then have nl: "n \<le> length s" using length_takeWhile_le[of p s] by simp
  have bound: "case hi of None \<Rightarrow> True | Some h \<Rightarrow> n \<le> h"
    using hi by (cases hi) (simp_all add: most_def)
  have "seg_ok (Rep p lo hi) (take n s)"
    using lo nl bound take_le_takeWhile[OF nt] by (simp split: option.splits)
  with ih s'(2) r show ?case by simp
qed

lemma match_end_complete:
  "list_all2 seg_ok rs segs \<Longrightarrow> match_end rs (concat segs) \<noteq> None"
proof (induction rs arbitrary: segs)
  case Nil
  then show ?case by simp
next
  case (Cons r rs)
  obtain p lo hi where r: "r = Rep p lo hi" by (cases r)
  from Cons.prems obtain g gs where segs: "segs = g # gs" and g: "seg_ok r g"
    and gs: "list_all2 seg_ok rs gs" by (auto simp: list_all2_Cons1)
  define s where "s = g @ concat gs"
  let ?f = "\<lambda>n. map_option (Cons (take n s)) (match_end rs (drop n s))"
  from g r have allp: "\<forall>x\<in>set g. p x" by (simp add: list_all_iff)
  then have "takeWhile p s = g @ takeWhile p (concat gs)"
    unfolding s_def by (simp only: takeWhile_append2)
  then have "length g \<le> length (takeWhile p s)" by simp
  moreover from g r have "case hi of None \<Rightarrow> True | Some h \<Rightarrow> length g \<le> h" by simp
  ultimately have "length g \<le> most p hi s" by (rule most_ge)
  moreover from g r have "lo \<le> length g" by simp
  ultimately have mem: "length g \<in> set (rev [lo ..< Suc (most p hi s)])"
    by (simp del: upt_Suc)
  have "match_end rs (drop (length g) s) \<noteq> None"
    using Cons.IH[OF gs] by (simp add: s_def)
  then have "?f (length g) \<noteq> None" by simp
  with mem have "try_counts ?f (rev [lo ..< Suc (most p hi s)]) \<noteq> None"
    by (rule try_counts_hit)
  then show ?case using segs r by (simp add: s_def del: upt_Suc)
qed

lemma MatchString_iff:
  "MatchString rs s = (\<exists>u t. s = u @ t \<and> match_end rs t \<noteq> None)"
proof (induction s)
  case Nil
  then show ?case by simp
next
  case (Cons c s)
  show ?case
  proof
    assume "MatchString rs (c # s)"
    then consider "match_end rs (c # s) \<noteq> None" | "MatchString rs s" by auto
    then show "\<exists>u t. c # s = u @ t \<and> match_end rs t \<noteq> None"
    proof cases
      case 1
      then show ?thesis by (intro exI[of _ "[]"] exI[of _ "c # s"]) simp
    next
      case 2
      with Cons.IH obtain u t where "s = u @ t" "match_end rs t \<noteq> None" by auto
      then show ?thesis by (intro exI[of _ "c # u"] exI[of _ t]) simp
    qed
  next
    assume "\<exists>u t. c # s = u @ t \<and> match_end rs t \<noteq> None"
    then obtain u t where ut: "c # s = u @ t" "match_end rs t \<noteq> None" by auto
    show "MatchString rs (c # s)"
    proof (cases u)
      case Nil
      with ut(1) have "t = c # s" by simp
      with ut(2) show ?thesis by simp
    next
      case (Cons a u')
      with ut have "s = u' @ t" by simp
      with ut(2) Cons.IH show ?thesis by auto
    qed
  qed
qed

section \<open>Suffix stripping\<close>

lemma dash_one: "seg_ok (Rep dash (Suc 0) (Some (Suc 0))) g = (g = ''-'')"
  by (cases g) (auto simp: dash_def)

lemma any_one: "seg_ok (Rep any_char (Suc 0) None) g = prefix_ok g"
  by (cases g) (auto simp: prefix_ok_def)

lemma digits_seg:
  "seg_ok (Rep digit (Suc 0) (Some 3)) g = (1 \<le> length g \<and> length g \<le> 3 \<and> list_all digit g)"
  by simp

lemma hash_seg:
  "seg_ok (Rep lower_alnum 8 (Some 10)) g
   = (8 \<le> length g \<and> length g \<le> 10 \<and> list_all lower_alnum g)"
  by simp

lemma rnd_seg: "seg_ok (Rep lower_alnum 5 (Some 5)) g = (length g = 5 \<and> list_all lower_alnum g)"
  by auto

lemmas seg_shapes = dash_one any_one digits_seg hash_seg rnd_seg

lemma ordinal_iff: "MatchString statefulSetOrdinalPattern name = ends_with_ordinal name"
proof
  assume "MatchString statefulSetOrdinalPattern name"
  then obtain u t segs where ut: "name = u @ t"
    and m: "match_end statefulSetOrdinalPattern t = Some segs"
    by (auto simp: MatchString_iff)
  from match_end_sound[OF m] obtain ds where
    "t = ''-'' @ ds" "1 \<le> length ds" "length ds \<le> 3" "list_all digit ds"
    by (auto simp: statefulSetOrdinalPattern_def list_all2_Cons1 seg_shapes simp del: seg_ok.simps)
  with ut show "ends_with_ordinal name"
    unfolding ends_with_ordinal_def by (intro exI[of _ u] exI[of _ ds]) simp
next
  assume "ends_with_ordinal name"
  then obtain p ds where n: "name = p @ ''-'' @ ds"
    and ds: "1 \<le> length ds" "length ds \<le> 3" "list_all digit ds"
    unfolding ends_with_ordinal_def by blast
  have "list_all2 seg_ok statefulSetOrdinalPattern [''-'', ds]"
    using ds by (simp add: statefulSetOrdinalPattern_def seg_shapes del: seg_ok.simps)
  from match_end_complete[OF this]
  have "match_end statefulSetOrdinalPattern (''-'' @ ds) \<noteq> None" by simp
  with n show "MatchString statefulSetOrdinalPattern name"
    unfolding MatchString_iff by blast
qed

lemma lower_alnum_not_dash: "list_all lower_alnum h \<Longrightarrow> CHR ''-'' \<notin> set h"
  by (auto simp: list_all_iff lower_alnum_def in_range_def)

lemma rev_tail_takeWhile:
  assumes h: "CHR ''-'' \<notin> set h"
  shows "takeWhile (\<lambda>c. c \<noteq> CHR ''-'') (rev (p @ CHR ''-'' # h)) = rev h"
proof -
  have "takeWhile (\<lambda>c. c \<noteq> CHR ''-'') (rev h @ CHR ''-'' # rev p)
        = rev h @ takeWhile (\<lambda>c. c \<noteq> CHR ''-'') (CHR ''-'' # rev p)"
    by (rule takeWhile_append2) (use h in auto)
  then show ?thesis by simp
qed

lemma dash_split_unique:
  assumes eq: "p @ CHR ''-'' # h = p' @ CHR ''-'' # h'"
    and h: "CHR ''-'' \<notin> set h" and h': "CHR ''-'' \<notin> set h'"
  shows "p = p' \<and> h = h'"
proof -
  have "rev h = rev h'"
    using rev_tail_takeWhile[OF h, of p] rev_tail_takeWhile[OF h', of p'] eq by simp
  then have "h = h'" by simp
  with eq show ?thesis by simp
qed

lemma replicaSet_form_unique:
  "replicaSet_form name p \<Longrightarrow> replicaSet_form name p' \<Longrightarrow> p = p'"
proof -
  assume "replicaSet_form name p" "replicaSet_form name p'"
  then obtain h r h' r' where
    a: "name = p @ ''-'' @ h @ ''-'' @ r" "list_all lower_alnum h" "list_all lower_alnum r"
    and b: "name = p' @ ''-'' @ h' @ ''-'' @ r'" "list_all lower_alnum h'" "list_all lower_alnum r'"
    unfolding replicaSet_form_def by blast
  from a(1) b(1) have "(p @ ''-'' @ h) @ CHR ''-'' # r = (p' @ ''-'' @ h') @ CHR ''-'' # r'"
    by simp
  from dash_split_unique[OF this] a(3) b(3)
  have "p @ CHR ''-'' # h = p' @ CHR ''-'' # h'" by (simp add: lower_alnum_not_dash)
  from dash_split_unique[OF this] a(2) b(2) show "p = p'" by (simp add: lower_alnum_not_dash)
qed

lemma deployment_form_unique:
  "deployment_form name p \<Longrightarrow> deployment_form name p' \<Longrightarrow> p = p'"
proof -
  assume "deployment_form name p" "deployment_form name p'"
  then obtain h h' where
    a: "name = p @ ''-'' @ h" "list_all lower_alnum h"
    and b: "name = p' @ ''-'' @ h'" "list_all lower_alnum h'"
    unfolding deployment_form_def by blast
  from a(1) b(1) have "p @ CHR ''-'' # h = p' @ CHR ''-'' # h'" by simp
  from dash_split_unique[OF this] a(2) b(2) show "p = p'" by (simp add: lower_alnum_not_dash)
qed

lemma replicaSet_sound:
  "match_end replicaSetPattern name = Some segs \<Longrightarrow> replicaSet_form name (hd segs)"
proof -
  assume m: "match_end replicaSetPattern name = Some segs"
  from match_end_sound[OF m] obtain p h r where
    "segs = [p, ''-'', h, ''-'', r]" "name = p @ ''-'' @ h @ ''-'' @ r" "prefix_ok p"
    "8 \<le> length h" "length h \<le> 10" "list_all lower_alnum h"
    "length r = 5" "list_all lower_alnum r"
    by (auto simp: replicaSetPattern_def list_all2_Cons1 seg_shapes simp del: seg_ok.simps)
  then show ?thesis unfolding replicaSet_form_def
    by (intro exI[of _ h] exI[of _ r]) auto
qed

lemma replicaSet_complete:
  "replicaSet_form name p \<Longrightarrow> match_end replicaSetPattern name \<noteq> None"
proof -
  assume "replicaSet_form name p"
  then obtain h r where n: "name = p @ ''-'' @ h @ ''-'' @ r" and ok: "prefix_ok p"
    "8 \<le> length h" "length h \<le> 10" "list_all lower_alnum h"
    "length r = 5" "list_all lower_alnum r"
    unfolding replicaSet_form_def by blast
  have "list_all2 seg_ok replicaSetPattern [p, ''-'', h, ''-'', r]"
    using ok by (simp add: replicaSetPattern_def seg_shapes del: seg_ok.simps)
  from match_end_complete[OF this] n show ?thesis by simp
qed

lemma deployment_sound:
  "match_end deploymentPattern name = Some segs \<Longrightarrow> deployment_form name (hd segs)"
proof -
  assume m: "match_end deploymentPattern name = Some segs"
  from match_end_sound[OF m] obtain p h where
    "segs = [p, ''-'', h]" "name = p @ ''-'' @ h" "prefix_ok p"
    "8 \<le> length h" "length h \<le> 10" "list_all lower_alnum h"
    by (auto simp: deploymentPattern_def list_all2_Cons1 seg_shapes simp del: seg_ok.simps)
  then show ?thesis unfolding deployment_form_def
    by (intro exI[of _ h]) auto
qed

lemma deployment_complete:
  "deployment_form name p \<Longrightarrow> match_end deploymentPattern name \<noteq> None"
proof -
  assume "deployment_form name p"
  then obtain h where n: "name = p @ ''-'' @ h" and ok: "prefix_ok p"
    "8 \<le> length h" "length h \<le> 10" "list_all lower_alnum h"
    unfolding deployment_form_def by blast
  have "list_all2 seg_ok deploymentPattern [p, ''-'', h]"
    using ok by (simp add: deploymentPattern_def seg_shapes del: seg_ok.simps)
  from match_end_complete[OF this] n show ?thesis by simp
qed

lemma Find_replicaSet:
  assumes "replicaSet_form name p"
  shows "FindStringSubmatch replicaSetPattern name = [name, p]"
proof -
  from replicaSet_complete[OF assms] obtain segs
    where m: "match_end replicaSetPattern name = Some segs" by auto
  from replicaSet_form_unique[OF replicaSet_sound[OF m] assms] have "hd segs = p" .
  with m show ?thesis by (simp add: FindStringSubmatch_def)
qed

lemma Find_replicaSet_none:
  assumes "\<not> (\<exists>p. replicaSet_form name p)"
  shows "FindStringSubmatch replicaSetPattern name = []"
proof (cases "match_end replicaSetPattern name")
  case None
  then show ?thesis by (simp add: FindStringSubmatch_def)
next
  case (Some segs)
  from replicaSet_sound[OF this] assms show ?thesis by blast
qed

lemma Find_deployment:
  assumes "deployment_form name p"
  shows "FindStringSubmatch deploymentPattern name = [name, p]"
proof -
  from deployment_complete[OF assms] obtain segs
    where m: "match_end deploymentPattern name = Some segs" by auto
  from deployment_form_unique[OF deployment_sound[OF m] assms] have "hd segs = p" .
  with m show ?thesis by (simp add: FindStringSubmatch_def)
qed

lemma Find_deployment_none:
  assumes "\<not> (\<exists>p. deployment_form name p)"
  shows "FindStringSubmatch deploymentPattern name = []"
proof (cases "match_end deploymentPattern name")
  case None
  then show ?thesis by (simp add: FindStringSubmatch_def)
next
  case (Some segs)
  from deployment_sound[OF this] assms show ?thesis by blast
qed

text \<open>
  Claim C4.  \<open>stripKubernetesSuffixes\<close> follows the four ordered rules: a name that ends
  with \<open>-\<close> and one to three digits is returned unchanged; otherwise a name of the form
  prefix, \<open>-\<close>, 8 to 10 lowercase alphanumerics, \<open>-\<close>, 5 lowercase alphanumerics yields the
  prefix; otherwise a name of the form prefix, \<open>-\<close>, 8 to 10 lowercase alphanumerics
  yields the prefix; otherwise the name is returned.  The prefix is read as the pattern
  group \<open>(.+)\<close> reads it (\<open>prefix_ok\<close>).  The three examples of the claim are part of the
  statement.
\<close>

theorem stripKubernetesSuffixes_rules:
  "(ends_with_ordinal name \<longrightarrow> stripKubernetesSuffixes name = name) \<and>
   (\<not> ends_with_ordinal name \<and> replicaSet_form name p \<longrightarrow> stripKubernetesSuffixes name = p) \<and>
   (\<not> ends_with_ordinal name \<and> \<not> (\<exists>q. replicaSet_form name q) \<and> deployment_form name p
      \<longrightarrow> stripKubernetesSuffixes name = p) \<and>
   (\<not> ends_with_ordinal name \<and> \<not> (\<exists>q. replicaSet_form name q) \<and>
    \<not> (\<exists>q. deployment_form name q) \<longrightarrow> stripKubernetesSuffixes name = name) \<and>
   stripKubernetesSuffixes ''nginx-deployment-7b5d9c6f8-xyz12'' = ''nginx-deployment'' \<and>
   stripKubernetesSuffixes ''redis-statefulset-0'' = ''redis-statefulset-0'' \<and>
   stripKubernetesSuffixes ''api-server-5f7d8c9b2a'' = ''api-server''"
proof (intro conjI impI)
  show "stripKubernetesSuffixes ''nginx-deployment-7b5d9c6f8-xyz12'' = ''nginx-deployment''"
    by code_simp
  show "stripKubernetesSuffixes ''redis-statefulset-0'' = ''redis-statefulset-0''"
    by code_simp
  show "stripKubernetesSuffixes ''api-server-5f7d8c9b2a'' = ''api-server''"
    by code_simp
next
  assume "ends_with_ordinal name"
  then show "stripKubernetesSuffixes name = name"
    by (simp add: stripKubernetesSuffixes_def ordinal_iff)
next
  assume a: "\<not> ends_with_ordinal name \<and> replicaSet_form name p"
  then have "FindStringSubmatch replicaSetPattern name = [name, p]"
    by (simp add: Find_replicaSet)
  with a show "stripKubernetesSuffixes name = p"
    by (simp add: stripKubernetesSuffixes_def ordinal_iff Let_def)
next
  assume a: "\<not> ends_with_ordinal name \<and> \<not> (\<exists>q. replicaSet_form name q) \<and> deployment_form name p"
  then have "FindStringSubmatch replicaSetPattern name = []"
    "FindStringSubmatch deploymentPattern name = [name, p]"
    by (simp_all add: Find_replicaSet_none Find_deployment)
  with a show "stripKubernetesSuffixes name = p"
    by (simp add: stripKubernetesSuffixes_def ordinal_iff Let_def)
next
  assume a: "\<not> ends_with_ordinal name \<and> \<not> (\<exists>q. replicaSet_form name q) \<and>
             \<not> (\<exists>q. deployment_form name q)"
  then have "FindStringSubmatch replicaSetPattern name = []"
    "FindStringSubmatch deploymentPattern name = []"
    by (simp_all add: Find_replicaSet_none Find_deployment_none)
  with a show "stripKubernetesSuffixes name = name"
    by (simp add: stripKubernetesSuffixes_def ordinal_iff Let_def)
qed

theorem stripKubernetesSuffixes_rules_witness:
  "\<not> ends_with_ordinal ''plex-7b5d9c6f8-abcde'' \<and>
   replicaSet_form ''plex-7b5d9c6f8-abcde'' ''plex'' \<and>
   stripKubernetesSuffixes ''plex-7b5d9c6f8-abcde'' = ''plex''"
proof -
  have m: "\<not> MatchString statefulSetOrdinalPattern ''plex-7b5d9c6f8-abcde''" by code_simp
  have a: "\<not> ends_with_ordinal ''plex-7b5d9c6f8-abcde''"
    using m ordinal_iff [of "''plex-7b5d9c6f8-abcde''"] by blast
  have b: "replicaSet_form ''plex-7b5d9c6f8-abcde'' ''plex''"
    unfolding replicaSet_form_def
    by (intro exI[of _ "''7b5d9c6f8''"] exI[of _ "''abcde''"])
       (simp add: prefix_ok_def any_char_def lower_alnum_def in_range_def)
  show ?thesis
    using a b stripKubernetesSuffixes_rules [of "''plex-7b5d9c6f8-abcde''" "''plex''"] by blast
qed

section \<open>Hostname sanitization\<close>

lemma replace_invalid_eq:
  "ReplaceAllString hostnameInvalidCharsPattern s ''-'' = replace_invalid s"
proof (induction s)
  case Nil
  show ?case
    by (simp add: hostnameInvalidCharsPattern_def ReplaceAllString.simps replace_invalid_def)
next
  case (Cons c s)
  then show ?case
    unfolding hostnameInvalidCharsPattern_def replace_invalid_def
    by (subst ReplaceAllString.simps) (simp add: most_def Let_def)
qed

lemma collapse_dash_head:
  "collapse_dashes (CHR ''-'' # t) = CHR ''-'' # collapse_dashes (dropWhile dash t)"
proof (induction t)
  case Nil
  show ?case by simp
next
  case (Cons b r)
  then show ?case by (cases r) (auto simp: dash_def)
qed

lemma collapse_other_head:
  "c \<noteq> CHR ''-'' \<Longrightarrow> collapse_dashes (c # t) = c # collapse_dashes t"
  by (cases t) auto

lemma collapse_eq:
  "ReplaceAllString hostnameMultipleDashPattern s ''-'' = collapse_dashes s"
proof (induction s rule: length_induct)
  case (1 s)
  show ?case
  proof (cases s)
    case Nil
    then show ?thesis by (simp add: hostnameMultipleDashPattern_def ReplaceAllString.simps)
  next
    case (Cons c t)
    show ?thesis
    proof (cases "c = CHR ''-''")
      case True
      have d: "drop (length (takeWhile dash s)) s = dropWhile dash t"
        using Cons True by (simp add: dropWhile_eq_drop[symmetric] dash_def)
      have len: "length (dropWhile dash t) < length s"
        using Cons length_dropWhile_le[of dash t] by simp
      have "ReplaceAllString hostnameMultipleDashPattern s ''-''
            = CHR ''-'' # ReplaceAllString hostnameMultipleDashPattern (dropWhile dash t) ''-''"
        unfolding hostnameMultipleDashPattern_def
        by (subst ReplaceAllString.simps)
           (use Cons True d in \<open>simp add: most_def Let_def dash_def\<close>)
      also have "\<dots> = CHR ''-'' # collapse_dashes (dropWhile dash t)"
        using 1 len by simp
      finally show ?thesis using Cons True by (simp only: collapse_dash_head)
    next
      case False
      have "ReplaceAllString hostnameMultipleDashPattern s ''-''
            = c # ReplaceAllString hostnameMultipleDashPattern t ''-''"
        unfolding hostnameMultipleDashPattern_def
        by (subst ReplaceAllString.simps)
           (use Cons False in \<open>simp add: most_def Let_def dash_def\<close>)
      also have "\<dots> = c # collapse_dashes t" using 1 Cons by simp
      finally show ?thesis using Cons False by (simp add: collapse_other_head)
    qed
  qed
qed

lemma Trim_dash: "Trim s ''-'' = trim_dashes s"
  by (simp add: Trim_def trim_dashes_def dash_def[abs_def])

text \<open>
  Claim C5.  \<open>sanitizeHostname\<close> lowercases its input, replaces every character outside
  \<open>[a-z0-9-]\<close> by \<open>-\<close>, collapses each run of \<open>-\<close> to one, trims leading and trailing
  \<open>-\<close>, and keeps at most the first 63 characters, in that order; the three examples of
  the claim are part of the statement.
\<close>

theorem sanitizeHostname_pipeline:
  "sanitizeHostname s
     = take 63 (trim_dashes (collapse_dashes (replace_invalid (map to_lower s)))) \<and>
   sanitizeHostname ''my--pod---name'' = ''my-pod-name'' \<and>
   sanitizeHostname ''@#$%^&*()'' = '''' \<and>
   sanitizeHostname (replicate 78 CHR ''a'') = replicate 63 CHR ''a''"
proof (intro conjI)
  show "sanitizeHostname s
          = take 63 (trim_dashes (collapse_dashes (replace_invalid (map to_lower s))))"
    by (simp add: sanitizeHostname_def ToLower_def replace_invalid_eq collapse_eq Trim_dash
        Let_def)
  show "sanitizeHostname ''my--pod---name'' = ''my-pod-name''" by code_simp
  show "sanitizeHostname ''@#$%^&*()'' = ''''" by code_simp
  show "sanitizeHostname (replicate 78 CHR ''a'') = replicate 63 CHR ''a''" by code_simp
qed

section \<open>Add, Delete and Check on the registry\<close>

text \<open>
  Claim C2.  Add is idempotent on the container id: when an instance is registered for
  the container id, Add returns that instance, the pod manager (and with it the
  registry) is unchanged, and no event happens: no key request is sent, no state
  directory, TUN device, veth pair or route is created.
\<close>

theorem AddPod_existing_unchanged:
  "servers pm c = Some srv \<Longrightarrow>
   AddPod e pm c netnsPath ifName podName namespace clusterIP = (Inr srv, pm, [])"
  by (simp add: AddPod_def)

theorem AddPod_existing_unchanged_witness:
  "servers pm1 ''c1'' = Some srv1 \<and>
   AddPod quiet_env pm1 ''c1'' ''/proc/1234/ns/net'' ''ts0'' ''web-7b5d9c6f8-xyz12'' ''default''
     ''10.0.0.5'' = (Inr srv1, pm1, [])"
proof -
  have h: "servers pm1 ''c1'' = Some srv1" by (simp add: pm1_def)
  show ?thesis using h AddPod_existing_unchanged [OF h] by simp
qed

text \<open>
  Claim C3.  Delete never returns an error; Delete of a container id that is not
  registered changes nothing and causes no event; after a Delete the container id is not
  registered, so a second Delete of it, in any environment, succeeds and changes
  nothing.  Kernel objects that have vanished are skipped (\<open>link_exists\<close>), and the
  results of the cleanup calls are not inspected.
\<close>

theorem DeletePod_idempotent:
  "fst (DeletePod e pm c) = None \<and>
   (servers pm c = None \<longrightarrow> DeletePod e pm c = (None, pm, [])) \<and>
   servers (fst (snd (DeletePod e pm c))) c = None \<and>
   DeletePod e' (fst (snd (DeletePod e pm c))) c = (None, fst (snd (DeletePod e pm c)), [])"
  by (simp add: DeletePod_def Let_def split: option.splits)

theorem DeletePod_idempotent_witness:
  "servers pm1 ''c2'' = None \<and> DeletePod quiet_env pm1 ''c2'' = (None, pm1, []) \<and>
   fst (DeletePod quiet_env pm1 ''c1'') = None"
proof -
  have h: "servers pm1 ''c2'' = None" by (simp add: pm1_def)
  show ?thesis
    using h DeletePod_idempotent [of quiet_env pm1 "''c2''"]
      DeletePod_idempotent [of quiet_env pm1 "''c1''"] by simp
qed

text \<open>
  Claim C10.  Check of a container id that is not registered returns
  \<open>(false, "pod not found", nil)\<close>, and Check of any container id leaves the pod
  manager, hence the registry and every instance in it, unchanged and causes no event.
\<close>

theorem CheckPod_absent:
  "(servers pm c = None \<longrightarrow> CheckPod e pm c = ((False, ''pod not found'', None), pm, [])) \<and>
   snd (CheckPod e pm c') = (pm, [])"
  by (simp add: CheckPod_def Let_def split: option.splits)

theorem CheckPod_absent_witness:
  "servers pm1 ''c2'' = None \<and>
   CheckPod quiet_env pm1 ''c2'' = ((False, ''pod not found'', None), pm1, []) \<and>
   snd (CheckPod quiet_env pm1 ''c1'') = (pm1, [])"
proof -
  have h: "servers pm1 ''c2'' = None" by (simp add: pm1_def)
  show ?thesis using h CheckPod_absent [of pm1 "''c2''" quiet_env "''c1''"] by simp
qed

section \<open>TUN device names\<close>

lemma tunName_take: "tunNameForContainer c = ''ts-'' @ take 8 c"
  by (simp add: tunNameForContainer_def Let_def)

lemma sweep_spares_known:
  "EvLinkDel n \<in> set (CleanupOrphanedResources e pm) \<Longrightarrow> n \<notin> knownTUNs pm"
  by (auto simp: CleanupOrphanedResources_def split: option.splits if_splits)

lemma TunNew_build:
  "build_engine e c dir = (r, evs) \<Longrightarrow> EvTunNew n \<in> set evs
   \<Longrightarrow> n = tun_actual_name e (tunNameForContainer c)"
  by (auto simp: build_engine_def Let_def unwind_tun_def unwind_netmon_def unwind_engine_def
      unwind_netstack_def split: if_splits)

lemma TunNew_start: "start_engine e c dir h k = (r, evs) \<Longrightarrow> EvTunNew n \<notin> set evs"
  by (auto simp: start_engine_def Let_def unwind_backend_def split: if_splits sum.splits)

lemma TunNew_bridge: "setupVethBridge e ns ifn tun ip mtu = (r, evs) \<Longrightarrow> EvTunNew n \<notin> set evs"
  by (auto simp: setupVethBridge_def Let_def split: if_splits)

lemma TunNew_key: "CreateAuthKey e m p ns = (r, evs) \<Longrightarrow> EvTunNew n \<notin> set evs"
  by (auto simp: CreateAuthKey_def split: if_splits)

lemma TunNew_save: "EvTunNew n \<notin> set (snd (saveMetadata e pm c m ns))"
  by (auto simp: saveMetadata_def Let_def split: if_splits)

lemma TunNew_AddPod:
  assumes "EvTunNew n \<in> set (snd (snd (AddPod e pm c netnsPath ifName podName namespace clusterIP)))"
  shows "n = tun_actual_name e (tunNameForContainer c)"
proof (cases "servers pm c")
  case (Some srv)
  with assms show ?thesis by (simp add: AddPod_def)
next
  case None
  with assms show ?thesis
    by (auto simp: AddPod_def Let_def unwind_backend_def TunNew_save
        split: sum.splits if_splits prod.splits
        dest: TunNew_build TunNew_start TunNew_bridge TunNew_key)
qed

text \<open>
  Claim C9.  The TUN device name of a container id is \<open>ts-\<close> followed by the first eight
  characters of the id (the whole id when it is shorter); every TUN device Add creates is
  the one the kernel hands out for that name; and for every registry, the name of a
  registered container id is among the names the orphan sweep takes as owned, so the
  sweep never deletes the link of that name.
\<close>

theorem tun_name_owned:
  "tunNameForContainer c = ''ts-'' @ take 8 c \<and>
   (EvTunNew n \<in> set (snd (snd (AddPod e pm c netnsPath ifName podName namespace clusterIP)))
      \<longrightarrow> n = tun_actual_name e (''ts-'' @ take 8 c)) \<and>
   (servers pm c \<noteq> None \<longrightarrow>
      tunNameForContainer c \<in> knownTUNs pm \<and>
      EvLinkDel (tunNameForContainer c) \<notin> set (CleanupOrphanedResources e' pm))"
proof (intro conjI impI)
  show "tunNameForContainer c = ''ts-'' @ take 8 c" by (rule tunName_take)
  show "n = tun_actual_name e (''ts-'' @ take 8 c)"
    if "EvTunNew n \<in> set (snd (snd (AddPod e pm c netnsPath ifName podName namespace clusterIP)))"
    using TunNew_AddPod[OF that] by (simp add: tunName_take)
  assume r: "servers pm c \<noteq> None"
  then show k: "tunNameForContainer c \<in> knownTUNs pm" by (auto simp: knownTUNs_def)
  then show "EvLinkDel (tunNameForContainer c) \<notin> set (CleanupOrphanedResources e' pm)"
    using sweep_spares_known by blast
qed

theorem tun_name_owned_witness:
  "servers pm1 ''c1'' \<noteq> None \<and>
   tunNameForContainer ''c1'' = ''ts-c1'' \<and>
   EvLinkDel ''ts-c1'' \<notin> set (CleanupOrphanedResources quiet_env pm1) \<and>
   CleanupOrphanedResources quiet_env pm1 = [EvLinkDel ''ts-deadbeef'']"
proof -
  have h: "servers pm1 ''c1'' \<noteq> None" by (simp add: pm1_def)
  have s: "CleanupOrphanedResources quiet_env pm1 = [EvLinkDel ''ts-deadbeef'']"
    by (simp add: CleanupOrphanedResources_def quiet_env_def knownTUNs_def pm1_def HasPrefix_def
        tunNameForContainer_def)
  show ?thesis
    using h s tun_name_owned [of "''c1''" n quiet_env pm1 np ifn pn ns cip quiet_env] by simp
qed

section \<open>Registry uniqueness\<close>

lemma live_append: "live_backends c (ev @ ev') = live_backends c ev + live_backends c ev'"
  by (simp add: live_backends_def)

lemma live_Nil: "live_backends c [] = 0"
  by (simp add: live_backends_def)

lemma live_Cons:
  "live_backends c (x # xs) =
     (if x = EvBackendNew c then 1 else 0) - (if x = EvBackendShutdown c then 1 else 0)
     + live_backends c xs"
  by (simp add: live_backends_def)

lemma key_live: "CreateAuthKey e m p ns = (r, evs) \<Longrightarrow> live_backends c' evs = 0"
  by (auto simp: CreateAuthKey_def live_backends_def split: if_splits)

lemma build_live:
  "build_engine e c dir = (r, evs)
   \<Longrightarrow> live_backends c' evs = (if \<not> isl r \<and> c' = c then 1 else 0)"
  by (auto simp: build_engine_def Let_def live_backends_def unwind_tun_def unwind_netmon_def
      unwind_engine_def unwind_netstack_def split: if_splits)

lemma start_live_raw:
  "live_backends c' (snd (start_engine e c dir h k))
   = (if isl (fst (start_engine e c dir h k)) \<and> c' = c then - 1 else 0)"
  by (simp add: start_engine_def Let_def live_backends_def unwind_backend_def split: sum.split)

lemma start_live:
  "start_engine e c dir h k = (r, evs)
   \<Longrightarrow> live_backends c' evs = (if isl r \<and> c' = c then - 1 else 0)"
  using start_live_raw[of c' e c dir h k] by simp

lemma bridge_live: "setupVethBridge e ns ifn tun ip mtu = (r, evs) \<Longrightarrow> live_backends c' evs = 0"
  by (auto simp: setupVethBridge_def Let_def live_backends_def split: if_splits)

lemma save_live: "live_backends c' (snd (saveMetadata e pm c m ns)) = 0"
  by (simp add: saveMetadata_def Let_def live_backends_def)

lemma unwind_live: "live_backends c' (unwind_backend c dir) = (if c' = c then - 1 else 0)"
  by (simp add: unwind_backend_def live_backends_def)

lemma AddPod_absent:
  assumes "servers pm c = None"
    and "AddPod e pm c netnsPath ifName podName namespace clusterIP = (r, pm', evs)"
  shows "(isl r \<longrightarrow> pm' = pm \<and> live_backends c' evs = 0) \<and>
         (\<not> isl r \<longrightarrow>
            (\<exists>m. r = Inr m \<and> Backend m = c \<and> ContainerID m = c \<and>
                 pm' = pm\<lparr>servers := (servers pm)(c \<mapsto> m)\<rparr>) \<and>
            live_backends c' evs = (if c' = c then 1 else 0))"
  using assms
  by (auto simp: AddPod_def Let_def live_append live_Nil live_Cons save_live unwind_live
      split: sum.splits if_splits prod.splits
      dest!: key_live[where c'=c'] build_live[where c'=c'] start_live[where c'=c']
             bridge_live[where c'=c'])

lemma AddPod_inv:
  assumes inv: "registry_inv pm ev"
    and a: "AddPod e pm c netnsPath ifName podName namespace clusterIP = (r, pm', ev')"
  shows "registry_inv pm' (ev @ ev')"
proof (cases "servers pm c")
  case (Some srv)
  with a have "pm' = pm" "ev' = []" by (simp_all add: AddPod_def)
  with inv show ?thesis by simp
next
  case None
  show ?thesis
  proof (cases "isl r")
    case True
    with AddPod_absent[OF None a] have "pm' = pm" "\<And>c'. live_backends c' ev' = 0" by auto
    with inv show ?thesis by (simp add: registry_inv_def live_append)
  next
    case False
    with AddPod_absent[OF None a] obtain m where
      m: "Backend m = c" "ContainerID m = c" "pm' = pm\<lparr>servers := (servers pm)(c \<mapsto> m)\<rparr>"
      and l: "\<And>c'. live_backends c' ev' = (if c' = c then 1 else 0)" by blast
    from inv None m l show ?thesis by (simp add: registry_inv_def live_append)
  qed
qed

lemma DeletePod_inv:
  assumes inv: "registry_inv pm ev"
    and d: "DeletePod e pm c = (r, pm', ev')"
  shows "registry_inv pm' (ev @ ev')"
proof (cases "servers pm c")
  case None
  with d have "pm' = pm" "ev' = []" by (simp_all add: DeletePod_def)
  with inv show ?thesis by simp
next
  case (Some m)
  with inv have b: "Backend m = c" by (simp add: registry_inv_def)
  from d Some b have pm': "pm' = pm\<lparr>servers := (servers pm)(c := None)\<rparr>"
    and l: "\<And>c'. live_backends c' ev' = (if c' = c then - 1 else 0)"
    by (auto simp: DeletePod_def Let_def live_backends_def split: option.splits)
  from inv Some pm' l show ?thesis by (simp add: registry_inv_def live_append)
qed

lemma step_inv:
  "registry_inv pm ev \<Longrightarrow> step e x pm = (pm', ev') \<Longrightarrow> registry_inv pm' (ev @ ev')"
proof (cases x)
  case (Add c np ifn pn ns cip)
  assume inv: "registry_inv pm ev" and s: "step e x pm = (pm', ev')"
  obtain r where "AddPod e pm c np ifn pn ns cip = (r, pm', ev')"
    using s Add by (cases "AddPod e pm c np ifn pn ns cip") simp
  from AddPod_inv[OF inv this] show ?thesis .
next
  case (Delete c)
  assume inv: "registry_inv pm ev" and s: "step e x pm = (pm', ev')"
  obtain r where "DeletePod e pm c = (r, pm', ev')"
    using s Delete by (cases "DeletePod e pm c") simp
  from DeletePod_inv[OF inv this] show ?thesis .
next
  case (Check c)
  assume inv: "registry_inv pm ev" and s: "step e x pm = (pm', ev')"
  from s Check have "pm' = pm" "ev' = []"
    by (simp_all add: CheckPod_def Let_def split: option.splits if_splits)
  with inv show ?thesis by simp
qed

lemma run_inv:
  "registry_inv pm ev \<Longrightarrow> run ops pm ev = (pm', ev') \<Longrightarrow> registry_inv pm' ev'"
proof (induction ops arbitrary: pm ev)
  case Nil
  then show ?case by simp
next
  case (Cons a ops)
  obtain e x where a: "a = (e, x)" by (cases a)
  obtain pm1 ev1 where s: "step e x pm = (pm1, ev1)" by (cases "step e x pm")
  from step_inv[OF Cons.prems(1) s] have "registry_inv pm1 (ev @ ev1)" .
  moreover from Cons.prems(2) a s have "run ops pm1 (ev @ ev1) = (pm', ev')" by simp
  ultimately show ?case by (rule Cons.IH)
qed

lemma init_inv: "registry_inv (NewPodManager sd cn om) []"
  by (simp add: registry_inv_def NewPodManager_def live_backends_def)

text \<open>
  Claim C1.  After every sequence of Add, Delete and Check operations on a new pod
  manager, in any environments, each container id has at most one live instance: the
  backends created for it and not shut down number one when the id is registered and
  none otherwise, and the registered instance is the one built for that id.  Add on a
  registered id returns the registered instance and changes nothing; a failed Add leaves
  the registry as it was; Add and Delete touch the entry of their own id only; Delete
  removes the entry.
\<close>

theorem registry_at_most_one:
  "run ops (NewPodManager sd cn om) [] = (pm, ev) \<Longrightarrow>
     live_backends c ev = (if servers pm c = None then 0 else 1) \<and>
     live_backends c ev \<le> 1 \<and>
     (servers pm c = Some m \<longrightarrow> ContainerID m = c \<and> Backend m = c) \<and>
     (servers pm c = Some m \<longrightarrow>
        AddPod e pm c netnsPath ifName podName namespace clusterIP = (Inr m, pm, [])) \<and>
     (servers pm c = None \<and> isl (fst (AddPod e pm c netnsPath ifName podName namespace clusterIP))
        \<longrightarrow> fst (snd (AddPod e pm c netnsPath ifName podName namespace clusterIP)) = pm) \<and>
     (c' \<noteq> c \<longrightarrow>
        servers (fst (snd (AddPod e pm c netnsPath ifName podName namespace clusterIP))) c'
        = servers pm c') \<and>
     servers (fst (snd (DeletePod e pm c))) c = None \<and>
     (c' \<noteq> c \<longrightarrow> servers (fst (snd (DeletePod e pm c))) c' = servers pm c')"
proof -
  assume r: "run ops (NewPodManager sd cn om) [] = (pm, ev)"
  from run_inv[OF init_inv r] have inv: "registry_inv pm ev" .
  obtain ra pma eva where a: "AddPod e pm c netnsPath ifName podName namespace clusterIP = (ra, pma, eva)"
    by (cases "AddPod e pm c netnsPath ifName podName namespace clusterIP")
  have add_absent: "servers pm c = None \<Longrightarrow> isl ra \<Longrightarrow> pma = pm"
    using AddPod_absent[OF _ a] by blast
  have add_other: "c' \<noteq> c \<Longrightarrow> servers pma c' = servers pm c'"
  proof (cases "servers pm c")
    case (Some srv)
    with a show ?thesis by (simp add: AddPod_def)
  next
    case None
    assume "c' \<noteq> c"
    with AddPod_absent[OF None a, of c'] show ?thesis by (cases "isl ra") auto
  qed
  from inv add_absent add_other a show ?thesis
    by (auto simp: registry_inv_def AddPod_def DeletePod_def Let_def split: option.splits)
qed

theorem registry_at_most_one_witness:
  "run ops1 pm0 [] = (fst (run ops1 pm0 []), snd (run ops1 pm0 [])) \<and>
   servers (fst (run ops1 pm0 [])) ''c1'' = Some srv1 \<and>
   live_backends ''c1'' (snd (run ops1 pm0 [])) = 1 \<and>
   ContainerID srv1 = ''c1'' \<and>
   AddPod quiet_env (fst (run ops1 pm0 [])) ''c1'' ''/proc/1234/ns/net'' ''ts0''
     ''web-7b5d9c6f8-xyz12'' ''default'' ''10.0.0.5''
     = (Inr srv1, fst (run ops1 pm0 []), [])"
proof -
  have r: "run ops1 (NewPodManager ''/var/lib/tailscale-cni'' ''k8s''
                      (main_oauthMgr ''id'' ''secret'' [''tag:k8s-pod''] (10 * Minute))) []
           = (fst (run ops1 pm0 []), snd (run ops1 pm0 []))"
    by (simp add: pm0_def)
  have s: "servers (fst (run ops1 pm0 [])) ''c1'' = Some srv1" by code_simp
  from registry_at_most_one [OF r, of "''c1''" srv1 quiet_env "''/proc/1234/ns/net''" "''ts0''"
      "''web-7b5d9c6f8-xyz12''" "''default''" "''10.0.0.5''" "''c2''"] s
  show ?thesis by simp
qed

section \<open>Failures in the bridge build\<close>
























section \<open>Auth-key requests\<close>

text \<open>
  Claim C7.  \<open>CreateAuthKey\<close> sends at most one key request, and the request carries
  reusable = false, ephemeral = false, preauthorized = true, the manager's tags and a
  description with namespace and name.  Its expiry is the constant 300: with
  \<open>--auth-key-ttl=10m\<close> (600 seconds) the request still carries 300.
\<close>

theorem key_request_expiry_fixed:
  "(snd (CreateAuthKey e (main_oauthMgr cid secret tgs ttl) podName namespace) = [] \<or>
    snd (CreateAuthKey e (main_oauthMgr cid secret tgs ttl) podName namespace)
      = [EvKeyRequest (keyReq (main_oauthMgr cid secret tgs ttl) podName namespace)]) \<and>
   keyReq (main_oauthMgr cid secret tgs ttl) podName namespace =
     \<lparr>Capabilities = \<lparr>Devices = \<lparr>Create =
        \<lparr>Reusable = False, Ephemeral = False, Preauthorized = True, Tags = tgs\<rparr>\<rparr>\<rparr>,
      ExpirySeconds = 300,
      Description = ''tailscale-cni '' @ namespace @ '' '' @ podName\<rparr> \<and>
   (10 * Minute) div Second = 600 \<and>
   ExpirySeconds (keyReq (main_oauthMgr ''id'' ''secret'' [''tag:k8s-pod''] (10 * Minute))
                    ''web'' ''default'') = 300"
  by (simp add: CreateAuthKey_def keyReq_def main_oauthMgr_def NewOAuthManager_def
      Minute_def Second_def)

section \<open>Recovery pass\<close>

lemma cleanup_stateDir:
  "stateDir pm = stateDir pm'
   \<Longrightarrow> cleanupOrphanedPod e pm c v = cleanupOrphanedPod e pm' c v"
  by (simp add: cleanupOrphanedPod_def)

lemma recoverPod_stateDir: "stateDir (fst (snd (recoverPod e pm c))) = stateDir pm"
  by (simp add: recoverPod_def Let_def split: sum.split option.split prod.split)

lemma recoverPod_err_indep:
  "stateDir pm = stateDir pm' \<Longrightarrow> fst (recoverPod e pm c) = fst (recoverPod e pm' c)"
  by (simp add: recoverPod_def Let_def split: sum.split option.split prod.split)

lemma pass_errors_Cons:
  "pass_errors envs pm ((name, isDir) # rest) =
     (if isDir then (case fst (recoverPod (envs name) pm name) of
                       Some err \<Rightarrow> [(''pod '' @ name) # err] | None \<Rightarrow> [])
      else []) @ pass_errors envs pm rest"
  by (simp add: pass_errors_def)

lemma pass_recovered_Cons:
  "pass_recovered envs pm ((name, isDir) # rest) =
     (if isDir \<and> fst (recoverPod (envs name) pm name) = None then 1 else 0)
     + pass_recovered envs pm rest"
  by (simp add: pass_recovered_def)

lemma pass_errors_indep:
  "stateDir pm = stateDir pm' \<Longrightarrow> pass_errors envs pm entries = pass_errors envs pm' entries"
proof (induction entries)
  case Nil
  show ?case by (simp add: pass_errors_def)
next
  case (Cons a entries)
  obtain name isDir where a: "a = (name, isDir)" by (cases a)
  from Cons a recoverPod_err_indep[OF Cons.prems, of "envs name" name]
  show ?case by (simp only: pass_errors_Cons)
qed

lemma pass_recovered_indep:
  "stateDir pm = stateDir pm'
   \<Longrightarrow> pass_recovered envs pm entries = pass_recovered envs pm' entries"
proof (induction entries)
  case Nil
  show ?case by (simp add: pass_recovered_def)
next
  case (Cons a entries)
  obtain name isDir where a: "a = (name, isDir)" by (cases a)
  from Cons a recoverPod_err_indep[OF Cons.prems, of "envs name" name]
  show ?case by (simp only: pass_recovered_Cons)
qed

lemma recover_loop_skip:
  "recover_loop envs ((name, False) # rest) pm recovered errors ev
   = recover_loop envs rest pm recovered errors ev"
  by simp

lemma recover_loop_ok:
  "recoverPod (envs name) pm name = (None, pm', ev')
   \<Longrightarrow> recover_loop envs ((name, True) # rest) pm recovered errors ev
       = recover_loop envs rest pm' (recovered + 1) errors (ev @ ev')"
  by simp

lemma recover_loop_err:
  "recoverPod (envs name) pm name = (Some err, pm', ev')
   \<Longrightarrow> recover_loop envs ((name, True) # rest) pm recovered errors ev
       = recover_loop envs rest pm' recovered (errors @ [(''pod '' @ name) # err])
           (ev @ ev' @ cleanupOrphanedPod (envs name) pm' name
              (case load_meta (envs name) name of
                 Inr meta \<Rightarrow> md_HostVethName meta | Inl _ \<Rightarrow> []))"
  by (simp add: Let_def)

lemma recover_loop_result:
  "fst (recover_loop envs entries pm recovered errors ev)
   = (recovered + pass_recovered envs pm entries, errors @ pass_errors envs pm entries)"
proof (induction entries arbitrary: pm recovered errors ev)
  case Nil
  show ?case by (simp add: pass_errors_def pass_recovered_def)
next
  case (Cons a entries)
  obtain name isDir where a: "a = (name, isDir)" by (cases a)
  show ?case
  proof (cases isDir)
    case False
    then have isF: "isDir = False" by simp
    show ?thesis
      unfolding a isF recover_loop_skip pass_errors_Cons pass_recovered_Cons
      using Cons.IH[of pm recovered errors ev] by simp
  next
    case True
    then have isT: "isDir = True" by simp
    obtain r pm' ev' where rp: "recoverPod (envs name) pm name = (r, pm', ev')"
      by (cases "recoverPod (envs name) pm name")
    have sd: "stateDir pm' = stateDir pm"
      using recoverPod_stateDir[of "envs name" pm name] rp by simp
    have pe: "pass_errors envs pm' entries = pass_errors envs pm entries"
      by (rule pass_errors_indep[OF sd])
    have pr: "pass_recovered envs pm' entries = pass_recovered envs pm entries"
      by (rule pass_recovered_indep[OF sd])
    have f: "fst (recoverPod (envs name) pm name) = r" using rp by simp
    show ?thesis
    proof (cases r)
      case None
      from rp None have rp': "recoverPod (envs name) pm name = (None, pm', ev')" by simp
      show ?thesis
        unfolding a isT recover_loop_ok[of envs name pm pm' ev', OF rp'] pass_errors_Cons pass_recovered_Cons f
          Cons.IH pe pr
        using None by simp
    next
      case (Some err)
      from rp Some have rp': "recoverPod (envs name) pm name = (Some err, pm', ev')" by simp
      show ?thesis
        unfolding a isT recover_loop_err[of envs name pm err pm' ev', OF rp'] pass_errors_Cons pass_recovered_Cons f
          Cons.IH pe pr
        using Some by simp
    qed
  qed
qed

lemma recover_loop_events_mono:
  "set ev \<subseteq> set (snd (snd (recover_loop envs entries pm recovered errors ev)))"
proof (induction entries arbitrary: pm recovered errors ev)
  case Nil
  show ?case by simp
next
  case (Cons a entries)
  obtain name isDir where a: "a = (name, isDir)" by (cases a)
  show ?case
  proof (cases isDir)
    case False
    then have isF: "isDir = False" by simp
    show ?thesis unfolding a isF recover_loop_skip by (rule Cons.IH)
  next
    case True
    then have isT: "isDir = True" by simp
    obtain r pm' ev' where rp: "recoverPod (envs name) pm name = (r, pm', ev')"
      by (cases "recoverPod (envs name) pm name")
    show ?thesis
    proof (cases r)
      case None
      from rp None have rp': "recoverPod (envs name) pm name = (None, pm', ev')" by simp
      have "set (ev @ ev') \<subseteq> set (snd (snd (recover_loop envs entries pm' (recovered + 1)
               errors (ev @ ev'))))" by (rule Cons.IH)
      then show ?thesis unfolding a isT recover_loop_ok[of envs name pm pm' ev', OF rp'] by simp
    next
      case (Some err)
      from rp Some have rp': "recoverPod (envs name) pm name = (Some err, pm', ev')" by simp
      let ?v = "case load_meta (envs name) name of
                  Inr meta \<Rightarrow> md_HostVethName meta | Inl _ \<Rightarrow> []"
      let ?ev = "ev @ ev' @ cleanupOrphanedPod (envs name) pm' name ?v"
      have "set ?ev \<subseteq> set (snd (snd (recover_loop envs entries pm' recovered
               (errors @ [(''pod '' @ name) # err]) ?ev)))" by (rule Cons.IH)
      then show ?thesis unfolding a isT recover_loop_err[of envs name pm err pm' ev', OF rp'] by simp
    qed
  qed
qed

lemma recoverPod_orphan:
  "load_meta e c = Inr meta \<Longrightarrow> \<not> netnsExists e (md_NetnsPath meta)
   \<Longrightarrow> recoverPod e pm c = (None, pm, cleanupOrphanedPod e pm c (md_HostVethName meta))"
  by (simp add: recoverPod_def)

lemma recover_loop_orphan_events:
  assumes "(n, True) \<in> set entries" and "load_meta (envs n) n = Inr meta"
    and "\<not> netnsExists (envs n) (md_NetnsPath meta)"
  shows "set (cleanupOrphanedPod (envs n) pm n (md_HostVethName meta))
         \<subseteq> set (snd (snd (recover_loop envs entries pm recovered errors ev)))"
  using assms(1)
proof (induction entries arbitrary: pm recovered errors ev)
  case Nil
  then show ?case by simp
next
  case (Cons a entries)
  obtain name isDir where a: "a = (name, isDir)" by (cases a)
  let ?c = "cleanupOrphanedPod (envs n) pm n (md_HostVethName meta)"
  show ?case
  proof (cases "a = (n, True)")
    case True
    have rp': "recoverPod (envs n) pm n = (None, pm, ?c)"
      by (rule recoverPod_orphan[OF assms(2,3)])
    have "set (ev @ ?c) \<subseteq> set (snd (snd (recover_loop envs entries pm (recovered + 1) errors
             (ev @ ?c))))" by (rule recover_loop_events_mono)
    then show ?thesis unfolding True recover_loop_ok[of envs n pm pm ?c, OF rp'] by simp
  next
    case False
    with Cons.prems have mem: "(n, True) \<in> set entries" by simp
    show ?thesis
    proof (cases isDir)
      case False
      then have isF: "isDir = False" by simp
      show ?thesis unfolding a isF recover_loop_skip by (rule Cons.IH[OF mem])
    next
      case True
      then have isT: "isDir = True" by simp
      obtain r pm' ev' where rp: "recoverPod (envs name) pm name = (r, pm', ev')"
        by (cases "recoverPod (envs name) pm name")
      have sd: "stateDir pm' = stateDir pm"
        using recoverPod_stateDir[of "envs name" pm name] rp by simp
      have c: "?c = cleanupOrphanedPod (envs n) pm' n (md_HostVethName meta)"
        by (rule cleanup_stateDir[OF sd[symmetric]])
      show ?thesis
      proof (cases r)
        case None
        from rp None have rp': "recoverPod (envs name) pm name = (None, pm', ev')" by simp
        show ?thesis unfolding a isT recover_loop_ok[of envs name pm pm' ev', OF rp'] c by (rule Cons.IH[OF mem])
      next
        case (Some err)
        from rp Some have rp': "recoverPod (envs name) pm name = (Some err, pm', ev')" by simp
        show ?thesis unfolding a isT recover_loop_err[of envs name pm err pm' ev', OF rp'] c by (rule Cons.IH[OF mem])
      qed
    qed
  qed
qed

text \<open>
  Claim C8.  A record whose namespace path no longer exists is orphan-cleaned and yields
  no error: \<open>recoverPod\<close> returns \<open>nil\<close>, leaves the registry alone and causes
  exactly the events of \<open>cleanupOrphanedPod\<close> (the TUN device of the container id and the
  recorded host-side veth are deleted when present, the state directory is removed).
  The pass handles every directory entry: its error list holds one error for each record
  whose recovery fails, in order, and nothing else; the cleanup of an orphaned record is
  among the events of the pass.
\<close>

theorem recovery_pass:
  "(load_meta e c = Inr meta \<and> \<not> netnsExists e (md_NetnsPath meta) \<longrightarrow>
      recoverPod e pm c = (None, pm, cleanupOrphanedPod e pm c (md_HostVethName meta)) \<and>
      cleanupOrphanedPod e pm c (md_HostVethName meta) =
        (if link_exists e (tunNameForContainer c) then [EvLinkDel (tunNameForContainer c)] else [])
        @ (if md_HostVethName meta \<noteq> '''' \<and> link_exists e (md_HostVethName meta)
           then [EvLinkDel (md_HostVethName meta)] else [])
        @ [EvRemoveAll (filepath_Join [stateDir pm, ''pods'', c])]) \<and>
   (read_dir e (filepath_Join [stateDir pm, ''pods'']) = DirEntries entries \<longrightarrow>
      fst (RecoverPods e envs pm) = (pass_recovered envs pm entries, pass_errors envs pm entries) \<and>
      ((n, True) \<in> set entries \<and> load_meta (envs n) n = Inr meta' \<and>
       \<not> netnsExists (envs n) (md_NetnsPath meta') \<longrightarrow>
         fst (recoverPod (envs n) pm n) = None \<and>
         set (cleanupOrphanedPod (envs n) pm n (md_HostVethName meta'))
           \<subseteq> set (snd (snd (RecoverPods e envs pm)))))"
proof (intro conjI impI)
  assume a: "load_meta e c = Inr meta \<and> \<not> netnsExists e (md_NetnsPath meta)"
  then show "recoverPod e pm c = (None, pm, cleanupOrphanedPod e pm c (md_HostVethName meta))"
    by (simp add: recoverPod_orphan)
  show "cleanupOrphanedPod e pm c (md_HostVethName meta) =
        (if link_exists e (tunNameForContainer c) then [EvLinkDel (tunNameForContainer c)] else [])
        @ (if md_HostVethName meta \<noteq> '''' \<and> link_exists e (md_HostVethName meta)
           then [EvLinkDel (md_HostVethName meta)] else [])
        @ [EvRemoveAll (filepath_Join [stateDir pm, ''pods'', c])]"
    by (simp add: cleanupOrphanedPod_def Let_def)
next
  assume d: "read_dir e (filepath_Join [stateDir pm, ''pods'']) = DirEntries entries"
  then have R: "RecoverPods e envs pm = recover_loop envs entries pm 0 [] []"
    by (simp add: RecoverPods_def)
  show "fst (RecoverPods e envs pm) = (pass_recovered envs pm entries, pass_errors envs pm entries)"
    using recover_loop_result[of envs entries pm 0 "[]" "[]"] R by simp
  assume o: "(n, True) \<in> set entries \<and> load_meta (envs n) n = Inr meta' \<and>
             \<not> netnsExists (envs n) (md_NetnsPath meta')"
  then show "fst (recoverPod (envs n) pm n) = None" by (simp add: recoverPod_orphan)
  from o recover_loop_orphan_events[of n entries envs meta' pm 0 "[]" "[]"] R
  show "set (cleanupOrphanedPod (envs n) pm n (md_HostVethName meta'))
          \<subseteq> set (snd (snd (RecoverPods e envs pm)))" by simp
qed

theorem recovery_pass_witness:
  "load_meta restart_env ''c1'' = Inr (meta_for ''c1'' ''/proc/1/ns/net'') \<and>
   \<not> netnsExists restart_env (md_NetnsPath (meta_for ''c1'' ''/proc/1/ns/net'')) \<and>
   read_dir restart_env (filepath_Join [stateDir pm0, ''pods''])
     = DirEntries [(''c1'', True), (''c2'', True), (''c3'', True)] \<and>
   (''c1'', True) \<in> set [(''c1'', True), (''c2'', True), (''c3'', True)] \<and>
   fst (RecoverPods restart_env (\<lambda>n. restart_env) pm0)
     = (2, [[''pod c2'', ''loading metadata'', ''reading metadata'']]) \<and>
   set [EvLinkDel ''ts-c1'', EvLinkDel ''veth1a2b3c4d'',
        EvRemoveAll ''/var/lib/tailscale-cni/pods/c1'']
     \<subseteq> set (snd (snd (RecoverPods restart_env (\<lambda>n. restart_env) pm0)))"
proof -
  have h1: "load_meta restart_env ''c1'' = Inr (meta_for ''c1'' ''/proc/1/ns/net'')"
    by (simp add: restart_env_def)
  have h2: "\<not> netnsExists restart_env (md_NetnsPath (meta_for ''c1'' ''/proc/1/ns/net''))"
    by (simp add: restart_env_def netnsExists_def meta_for_def)
  have h3: "read_dir restart_env (filepath_Join [stateDir pm0, ''pods''])
              = DirEntries [(''c1'', True), (''c2'', True), (''c3'', True)]"
    by (simp add: restart_env_def quiet_env_def)
  have h4: "(''c1'', True) \<in> set [(''c1'', True), (''c2'', True), (''c3'', True)]" by simp
  have v1: "pass_recovered (\<lambda>n. restart_env) pm0 [(''c1'', True), (''c2'', True), (''c3'', True)] = 2"
    by code_simp
  have v2: "pass_errors (\<lambda>n. restart_env) pm0 [(''c1'', True), (''c2'', True), (''c3'', True)]
              = [[''pod c2'', ''loading metadata'', ''reading metadata'']]"
    by code_simp
  have v3: "cleanupOrphanedPod restart_env pm0 ''c1''
              (md_HostVethName (meta_for ''c1'' ''/proc/1/ns/net''))
            = [EvLinkDel ''ts-c1'', EvLinkDel ''veth1a2b3c4d'',
               EvRemoveAll ''/var/lib/tailscale-cni/pods/c1'']"
    by code_simp
  from recovery_pass [of restart_env "''c1''" "meta_for ''c1'' ''/proc/1/ns/net''" pm0
      "[(''c1'', True), (''c2'', True), (''c3'', True)]" "\<lambda>n. restart_env" "''c1''"
      "meta_for ''c1'' ''/proc/1/ns/net''"] h1 h2 h3 h4
  have "fst (RecoverPods restart_env (\<lambda>n. restart_env) pm0)
          = (pass_recovered (\<lambda>n. restart_env) pm0 [(''c1'', True), (''c2'', True), (''c3'', True)],
             pass_errors (\<lambda>n. restart_env) pm0 [(''c1'', True), (''c2'', True), (''c3'', True)])"
    and "set (cleanupOrphanedPod restart_env pm0 ''c1''
               (md_HostVethName (meta_for ''c1'' ''/proc/1/ns/net'')))
          \<subseteq> set (snd (snd (RecoverPods restart_env (\<lambda>n. restart_env) pm0)))"
    by blast+
  with h1 h2 h3 h4 v1 v2 v3 show ?thesis by simp
qed

end
